theory Spec2Isabelle
  imports Main "HOL-Library.Sublist" "HOL-Library.Word"
begin

section \<open>Errors\<close>

text \<open>
  Every error the modelled functions return. The Go code builds them with
  \<open>errors.New\<close> or \<open>fmt.Errorf\<close>; each constructor stands for one message
  (given beside it), formatted arguments left out.
\<close>

datatype error =
    PageNotIndirect          \<comment> \<open>"Page should be an indirect object"\<close>
  | PageNotDictionary        \<comment> \<open>"Page object should be a dictionary"\<close>
  | PageTypeNotName          \<comment> \<open>"Page should have a Type key with a value of type name (%T)"\<close>
  | TypeNotPage              \<comment> \<open>"Type != Page (Required)."\<close>
  | InvalidParent            \<comment> \<open>"Invalid Parent object"\<close>
  | InvalidPagesObj          \<comment> \<open>"Invalid Pages obj (not a dict)"\<close>
  | InvalidPagesKids         \<comment> \<open>"Invalid Pages Kids obj (not an array)"\<close>
  | InvalidPagesCount        \<comment> \<open>"Invalid Pages Count object (not an integer)"\<close>
  | ParentIsReference        \<comment> \<open>"Parent is a reference object - Cannot be in writer (needs to be resolved) - %s"\<close>
  | ArrayIsNil               \<comment> \<open>"Array is nil"\<close>
  | ReferenceNotAllowed      \<comment> \<open>"Reference not allowed"\<close>
  | FormsNil                 \<comment> \<open>"forms == nil"\<close>
  | FieldNotIndirect         \<comment> \<open>"Field not pointing indirect object"\<close>
  | POutsideWritePages       \<comment> \<open>"P pointing outside of write pages"\<close>
  | TJParamNotArray          \<comment> \<open>"Invalid parameter type, no array (%T)"\<close>
  | TjParamNotString         \<comment> \<open>"Invalid parameter type, not string (%T)"\<close>
  | ReadError                \<comment> \<open>the error of the underlying reader (end of input)\<close>
  | External string          \<comment> \<open>an error handed up from a collaborator outside the modelled files\<close>
  | Panic                    \<comment> \<open>no error value: a run-time panic (nil pointer dereference)\<close>

section \<open>Content streams: the inline image data scanner\<close>

text \<open>
  Bytes are \<open>char\<close> (8 bits), byte strings are \<open>string\<close>.

  Modelled from the spec: \<open>IsWhiteSpace\<close> of package \<open>core\<close> is not among the
  source files; the spec only speaks of "whitespace". The six white-space
  characters of the PDF character set are taken. The scanner below takes the
  predicate as a parameter.
\<close>

definition IsWhiteSpace :: "char \<Rightarrow> bool" where
  "IsWhiteSpace ch \<longleftrightarrow>
     ch = CHR 0x00 \<or> ch = CHR 0x09 \<or> ch = CHR 0x0A \<or> ch = CHR 0x0C \<or> ch = CHR 0x0D \<or> ch = CHR 0x20"

text \<open>
  The byte loop of \<open>ParseInlineImage\<close> after \<open>ID\<close>. Arguments: the white-space
  predicate, \<open>state\<close>, \<open>skipBytes\<close>, \<open>im.stream\<close> and the bytes the reader still
  holds. Each call is one iteration: \<open>ReadByte\<close> takes the head of the input and
  fails on the empty input. The result is the error, or \<open>im.stream\<close> with the
  input left in the reader. A \<open>state\<close> outside 0..3 matches no branch, as in
  the source.
\<close>

fun scanInlineImage ::
  "(char \<Rightarrow> bool) \<Rightarrow> nat \<Rightarrow> string \<Rightarrow> string \<Rightarrow> string \<Rightarrow> error + (string \<times> string)" where
  "scanInlineImage ws state skipBytes stream [] = Inl ReadError"
| "scanInlineImage ws state skipBytes stream (c # cs) =
     (if state = 0 then
        (if ws c then scanInlineImage ws 1 [c] stream cs
         else scanInlineImage ws 0 skipBytes (stream @ [c]) cs)
      else if state = 1 then
        (let skipBytes = skipBytes @ [c] in
         if c = CHR ''E'' then scanInlineImage ws 2 skipBytes stream cs
         else
           (let stream = stream @ skipBytes in
            if ws c then scanInlineImage ws 1 skipBytes stream cs
            else scanInlineImage ws 0 skipBytes stream cs))
      else if state = 2 then
        (let skipBytes = skipBytes @ [c] in
         if c = CHR ''I'' then scanInlineImage ws 3 skipBytes stream cs
         else scanInlineImage ws 0 skipBytes (stream @ skipBytes) cs)
      else if state = 3 then
        (let skipBytes = skipBytes @ [c] in
         if ws c then Inr (stream, cs)
         else scanInlineImage ws 0 skipBytes (stream @ skipBytes) cs)
      else scanInlineImage ws state skipBytes stream cs)"

text \<open>
  The \<open>ID\<close> branch of \<open>ParseInlineImage\<close>: \<open>Peek(1)\<close> fails on the empty
  input; one white-space byte right after \<open>ID\<close> is discarded; then the loop
  starts in state 0 with \<open>skipBytes\<close> nil and \<open>im.stream\<close> empty.
\<close>

definition parseInlineImageData :: "(char \<Rightarrow> bool) \<Rightarrow> string \<Rightarrow> error + (string \<times> string)" where
  "parseInlineImageData ws input =
     (case input of
        [] \<Rightarrow> Inl ReadError
      | b # bs \<Rightarrow> scanInlineImage ws 0 [] [] (if ws b then bs else b # bs))"

section \<open>The object model\<close>

text \<open>
  \<open>PdfObject\<close> is a Go interface; every implementation is a pointer
  (\<open>*PdfObjectNull\<close>, \<open>*PdfObjectDictionary\<close>, \<open>*PdfIndirectObject\<close>, ...), and
  the writer compares objects with \<open>==\<close>, that is by dynamic type and address. It
  also updates dictionaries, arrays and integers through shared pointers. So
  the objects live in an explicit store: a value of type \<open>PdfObject\<close> is the nil
  interface, a nil \<open>*PdfObjectArray\<close> (the one typed nil pointer the code tests
  for) or the address of a cell, and a cell holds what the pointer points to.
  Nil pointers of the other types are not represented.

  The types themselves are declared in package \<open>core\<close>, outside the source
  files; the cells list the fields the modelled code reads and writes.
  A dictionary is a Go map from names to objects: an association list whose
  order stands for the order in which \<open>range\<close> happens to visit the keys.
\<close>

type_synonym addr = nat

datatype PdfObject = NilInterface | NilArrayPtr | Ptr addr

datatype cell =
    PdfObjectNull
  | PdfObjectBool bool
  | PdfObjectInteger int
  | PdfObjectFloat "64 word"
  | PdfObjectString string
  | PdfObjectName string
  | PdfObjectArray "PdfObject list"
  | PdfObjectDictionary "(string \<times> PdfObject) list"
  | PdfObjectReference int int
  | PdfIndirectObject int int PdfObject
  | PdfObjectStream int int addr string

text \<open>
  \<open>PdfObjectFloat\<close> carries the bit pattern of the \<open>float64\<close>; no modelled
  code computes with it. \<open>PdfIndirectObject n g body\<close> and
  \<open>PdfObjectStream n g dict bytes\<close> carry \<open>ObjectNumber\<close> and \<open>GenerationNumber\<close>
  first.
\<close>

type_synonym heap = "cell list"

definition heapGet :: "heap \<Rightarrow> addr \<Rightarrow> cell option" where
  "heapGet h a = (if a < length h then Some (h ! a) else None)"

definition alloc :: "heap \<Rightarrow> cell \<Rightarrow> addr \<times> heap" where
  "alloc h c = (length h, h @ [c])"

definition deref :: "heap \<Rightarrow> PdfObject \<Rightarrow> cell option" where
  "deref h obj = (case obj of Ptr a \<Rightarrow> heapGet h a | _ \<Rightarrow> None)"

text \<open>Go maps as association lists: \<open>m[k]\<close> with the comma-ok form, and \<open>m[k] = v\<close>.\<close>

fun mapSet :: "('k \<times> 'v) list \<Rightarrow> 'k \<Rightarrow> 'v \<Rightarrow> ('k \<times> 'v) list" where
  "mapSet [] k v = [(k, v)]"
| "mapSet ((k', v') # kvs) k v = (if k' = k then (k, v) # kvs else (k', v') # mapSet kvs k v)"

text \<open>
  The entries of the dictionary at an address, \<open>(*dict)[k]\<close> with and without
  the comma-ok form (a missing key reads as the nil interface), and
  \<open>(*dict)[k] = v\<close>. The address is a \<open>*PdfObjectDictionary\<close> in the source;
  at an address that holds no dictionary there are no entries and nothing is
  stored.
\<close>

definition dictOf :: "heap \<Rightarrow> addr \<Rightarrow> (string \<times> PdfObject) list" where
  "dictOf h d = (case heapGet h d of Some (PdfObjectDictionary kvs) \<Rightarrow> kvs | _ \<Rightarrow> [])"

definition dictLookup :: "heap \<Rightarrow> addr \<Rightarrow> string \<Rightarrow> PdfObject option" where
  "dictLookup h d k = map_of (dictOf h d) k"

definition dictIndex :: "heap \<Rightarrow> addr \<Rightarrow> string \<Rightarrow> PdfObject" where
  "dictIndex h d k = (case dictLookup h d k of Some v \<Rightarrow> v | None \<Rightarrow> NilInterface)"

definition dictSet :: "heap \<Rightarrow> addr \<Rightarrow> string \<Rightarrow> PdfObject \<Rightarrow> heap" where
  "dictSet h d k v =
     (case heapGet h d of
        Some (PdfObjectDictionary kvs) \<Rightarrow> h[d := PdfObjectDictionary (mapSet kvs k v)]
      | _ \<Rightarrow> h)"

text \<open>The type assertions \<open>obj.(*T)\<close>: the address (and what the code reads next) when they hold.\<close>

definition asIndirectObject :: "heap \<Rightarrow> PdfObject \<Rightarrow> (addr \<times> PdfObject) option" where
  "asIndirectObject h obj =
     (case obj of
        Ptr a \<Rightarrow> (case heapGet h a of Some (PdfIndirectObject n g body) \<Rightarrow> Some (a, body) | _ \<Rightarrow> None)
      | _ \<Rightarrow> None)"

definition asStream :: "heap \<Rightarrow> PdfObject \<Rightarrow> (addr \<times> addr) option" where
  "asStream h obj =
     (case obj of
        Ptr a \<Rightarrow> (case heapGet h a of Some (PdfObjectStream n g d bs) \<Rightarrow> Some (a, d) | _ \<Rightarrow> None)
      | _ \<Rightarrow> None)"

definition asDictionary :: "heap \<Rightarrow> PdfObject \<Rightarrow> addr option" where
  "asDictionary h obj =
     (case obj of
        Ptr a \<Rightarrow> (case heapGet h a of Some (PdfObjectDictionary kvs) \<Rightarrow> Some a | _ \<Rightarrow> None)
      | _ \<Rightarrow> None)"

text \<open>For an array the assertion also holds of the nil \<open>*PdfObjectArray\<close>: \<open>Some None\<close>.\<close>

definition asArray :: "heap \<Rightarrow> PdfObject \<Rightarrow> addr option option" where
  "asArray h obj =
     (case obj of
        NilArrayPtr \<Rightarrow> Some None
      | Ptr a \<Rightarrow> (case heapGet h a of Some (PdfObjectArray xs) \<Rightarrow> Some (Some a) | _ \<Rightarrow> None)
      | _ \<Rightarrow> None)"

definition arrayOf :: "heap \<Rightarrow> addr \<Rightarrow> PdfObject list" where
  "arrayOf h a = (case heapGet h a of Some (PdfObjectArray xs) \<Rightarrow> xs | _ \<Rightarrow> [])"

definition isNull :: "heap \<Rightarrow> PdfObject \<Rightarrow> bool" where
  "isNull h obj = (deref h obj = Some PdfObjectNull)"

definition isReference :: "heap \<Rightarrow> PdfObject \<Rightarrow> bool" where
  "isReference h obj = (case deref h obj of Some (PdfObjectReference n g) \<Rightarrow> True | _ \<Rightarrow> False)"

definition asName :: "heap \<Rightarrow> PdfObject \<Rightarrow> string option" where
  "asName h obj = (case deref h obj of Some (PdfObjectName s) \<Rightarrow> Some s | _ \<Rightarrow> None)"

definition asString :: "heap \<Rightarrow> PdfObject \<Rightarrow> string option" where
  "asString h obj = (case deref h obj of Some (PdfObjectString s) \<Rightarrow> Some s | _ \<Rightarrow> None)"

definition asInteger :: "heap \<Rightarrow> PdfObject \<Rightarrow> (addr \<times> int) option" where
  "asInteger h obj =
     (case obj of
        Ptr a \<Rightarrow> (case heapGet h a of Some (PdfObjectInteger i) \<Rightarrow> Some (a, i) | _ \<Rightarrow> None)
      | _ \<Rightarrow> None)"

text \<open>\<open>int64\<close> arithmetic wraps around.\<close>

definition int64 :: "int \<Rightarrow> int" where
  "int64 i = (i + 2 ^ 63) mod 2 ^ 64 - 2 ^ 63"

section \<open>The writer\<close>

text \<open>
  The security handler's state, as far as \<open>PdfWriter.Encrypt\<close> sets it. The
  struct \<open>PdfCrypt\<close> is declared in package \<open>core\<close>; its fields \<open>P\<close>, \<open>V\<close>, \<open>R\<close>,
  \<open>Length\<close>, \<open>O\<close>, \<open>U\<close> carry the prefix \<open>crypt\<close> here, and \<open>CryptFilter.Length\<close>
  is \<open>FilterLength\<close>.
\<close>

record CryptFilter =
  Cfm :: string
  FilterLength :: int

record PdfCrypt =
  EncryptedObjects :: "PdfObject list"
  CryptFilters :: "(string \<times> CryptFilter) list"
  cryptP :: int
  cryptV :: int
  cryptR :: int
  cryptLength :: int
  EncryptMetadata :: bool
  Id0 :: string
  cryptO :: string
  cryptU :: string
  EncryptionKey :: string

text \<open>
  \<open>PdfWriter\<close>, with the store of all objects as the field \<open>heap\<close>. Left out:
  \<open>objectsMap\<close> and \<open>outlines\<close>, which no method reads, and \<open>writer\<close>, whose
  output is the byte string \<open>Write\<close> returns. \<open>root\<close>, \<open>pages\<close>, \<open>catalog\<close> and
  \<open>infoObj\<close> are set by \<open>NewPdfWriter\<close> and never nil afterwards; \<open>crypter\<close>,
  \<open>encryptDict\<close>, \<open>encryptObj\<close> and \<open>ids\<close> are nil until \<open>Encrypt\<close>. The field
  \<open>fields\<close> is \<open>formFields\<close> here.
  The outline tree and the AcroForm are collaborators of which the writer only
  calls \<open>ToPdfObject()\<close>: each is given by that method, a function from the
  store to the object it returns and the store it leaves.
\<close>

record PdfWriter =
  root :: addr
  pages :: addr
  objects :: "PdfObject list"
  outlineTree :: "(heap \<Rightarrow> PdfObject \<times> heap) option"
  catalog :: addr
  formFields :: "PdfObject list"
  infoObj :: addr
  crypter :: "PdfCrypt option"
  encryptDict :: "addr option"
  encryptObj :: "addr option"
  ids :: "addr option"
  majorVersion :: int
  minorVersion :: int
  pendingObjects :: "(PdfObject \<times> addr) list"
  acroForm :: "(heap \<Rightarrow> PdfObject \<times> heap) option"
  heap :: heap

definition hasObject :: "PdfWriter \<Rightarrow> PdfObject \<Rightarrow> bool" where
  "hasObject this obj = (obj \<in> set (objects this))"

definition addObject :: "PdfWriter \<Rightarrow> PdfObject \<Rightarrow> bool \<times> PdfWriter" where
  "addObject this obj =
     (let hasObj = hasObject this obj in
      if \<not> hasObj then (True, this\<lparr>objects := objects this @ [obj]\<rparr>)
      else (False, this))"

text \<open>
  \<open>addObjects\<close>. The recursion follows the store and need not end (a
  dictionary that holds itself), so the depth is bounded by fuel: \<open>None\<close> says
  the fuel ran out. Otherwise the result is the error (if any) and the writer
  as the call leaves it; the Go method changes \<open>objects\<close> and \<open>pendingObjects\<close>
  in place also when it fails. The two loops are functions of their own, over
  the entries still to visit. In the \<open>Parent\<close> branch \<open>(*dict)["Parent"]\<close> is
  the value \<open>v\<close> of the entry at hand.
\<close>

fun addObjects :: "nat \<Rightarrow> PdfWriter \<Rightarrow> PdfObject \<Rightarrow> (error option \<times> PdfWriter) option"
  and addObjectsDict ::
    "nat \<Rightarrow> PdfWriter \<Rightarrow> addr \<Rightarrow> (string \<times> PdfObject) list \<Rightarrow> (error option \<times> PdfWriter) option"
  and addObjectsArray :: "nat \<Rightarrow> PdfWriter \<Rightarrow> PdfObject list \<Rightarrow> (error option \<times> PdfWriter) option"
where
  "addObjects 0 this obj = None"
| "addObjects (Suc n) this obj =
     (case asIndirectObject (heap this) obj of
        Some (io, body) \<Rightarrow>
          (case addObject this obj of
             (True, this') \<Rightarrow> addObjects n this' body
           | (False, this') \<Rightarrow> Some (None, this'))
      | None \<Rightarrow>
     (case asStream (heap this) obj of
        Some (so, d) \<Rightarrow>
          (case addObject this obj of
             (True, this') \<Rightarrow> addObjects n this' (Ptr d)
           | (False, this') \<Rightarrow> Some (None, this'))
      | None \<Rightarrow>
     (case asDictionary (heap this) obj of
        Some dict \<Rightarrow> addObjectsDict n this dict (dictOf (heap this) dict)
      | None \<Rightarrow>
     (case asArray (heap this) obj of
        Some None \<Rightarrow> Some (Some ArrayIsNil, this)
      | Some (Some arr) \<Rightarrow> addObjectsArray n this (arrayOf (heap this) arr)
      | None \<Rightarrow>
     (if isReference (heap this) obj then Some (Some ReferenceNotAllowed, this)
      else Some (None, this))))))"
| "addObjectsDict n this dict [] = Some (None, this)"
| "addObjectsDict n this dict ((k, v) # kvs) =
     (if k \<noteq> ''Parent'' then
        (case addObjects n this v of
           None \<Rightarrow> None
         | Some (Some err, this') \<Rightarrow> Some (Some err, this')
         | Some (None, this') \<Rightarrow> addObjectsDict n this' dict kvs)
      else if isNull (heap this) v then addObjectsDict n this dict kvs
      else
        (let this' =
           (if \<not> hasObject this v
            then this\<lparr>pendingObjects := mapSet (pendingObjects this) v dict\<rparr>
            else this)
         in if isReference (heap this') v then Some (Some ParentIsReference, this')
            else addObjectsDict n this' dict kvs))"
| "addObjectsArray n this [] = Some (None, this)"
| "addObjectsArray n this (v # vs) =
     (case addObjects n this v of
        None \<Rightarrow> None
      | Some (Some err, this') \<Rightarrow> Some (Some err, this')
      | Some (None, this') \<Rightarrow> addObjectsArray n this' vs)"

text \<open>
  The constructors of package \<open>core\<close> (\<open>MakeName\<close>, \<open>MakeString\<close>,
  \<open>MakeInteger\<close>, \<open>MakeNull\<close>) return a pointer to a new object: a new cell.
\<close>

definition MakeName :: "heap \<Rightarrow> string \<Rightarrow> addr \<times> heap" where
  "MakeName h s = alloc h (PdfObjectName s)"

definition MakeString :: "heap \<Rightarrow> string \<Rightarrow> addr \<times> heap" where
  "MakeString h s = alloc h (PdfObjectString s)"

definition MakeInteger :: "heap \<Rightarrow> int \<Rightarrow> addr \<times> heap" where
  "MakeInteger h i = alloc h (PdfObjectInteger i)"

definition MakeNull :: "heap \<Rightarrow> addr \<times> heap" where
  "MakeNull h = alloc h PdfObjectNull"

text \<open>
  \<open>getPdfProducer\<close> and \<open>getPdfCreator\<close> read the package variables
  \<open>pdfProducer\<close> and \<open>pdfCreator\<close>, here arguments, as is the string that
  \<open>getUniDocVersion()\<close> (not among the source files) returns.
\<close>

definition getPdfProducer :: "string \<Rightarrow> string \<Rightarrow> string" where
  "getPdfProducer pdfProducer version =
     (if length pdfProducer > 0 then pdfProducer
      else ''UniDoc Library version '' @ version @ '' - http://unidoc.io'')"

definition getPdfCreator :: "string \<Rightarrow> string" where
  "getPdfCreator pdfCreator =
     (if length pdfCreator > 0 then pdfCreator else ''UniDoc - http://unidoc.io'')"

text \<open>
  \<open>NewPdfWriter\<close>, given the store of the program. The three \<open>addObject\<close>
  calls are made once the cells exist; they do not read the store.
\<close>

definition NewPdfWriter :: "heap \<Rightarrow> string \<Rightarrow> string \<Rightarrow> string \<Rightarrow> PdfWriter" where
  "NewPdfWriter h pdfProducer pdfCreator version =
     (let (infoDict, h) = alloc h (PdfObjectDictionary []);
          (producer, h) = MakeString h (getPdfProducer pdfProducer version);
          h = dictSet h infoDict ''Producer'' (Ptr producer);
          (creator, h) = MakeString h (getPdfCreator pdfCreator);
          h = dictSet h infoDict ''Creator'' (Ptr creator);
          (infoObj, h) = alloc h (PdfIndirectObject 0 0 (Ptr infoDict));
          (catalogDict, h) = alloc h (PdfObjectDictionary []);
          (tCatalog, h) = MakeName h ''Catalog'';
          h = dictSet h catalogDict ''Type'' (Ptr tCatalog);
          (catalog, h) = alloc h (PdfIndirectObject 0 0 (Ptr catalogDict));
          (pagedict, h) = alloc h (PdfObjectDictionary []);
          (tPages, h) = MakeName h ''Pages'';
          h = dictSet h pagedict ''Type'' (Ptr tPages);
          (kids, h) = alloc h (PdfObjectArray []);
          h = dictSet h pagedict ''Kids'' (Ptr kids);
          (count, h) = MakeInteger h 0;
          h = dictSet h pagedict ''Count'' (Ptr count);
          (pages, h) = alloc h (PdfIndirectObject 0 0 (Ptr pagedict));
          h = dictSet h catalogDict ''Pages'' (Ptr pages);
          w = \<lparr>root = catalog, pages = pages, objects = [], outlineTree = None,
               catalog = catalogDict, formFields = [], infoObj = infoObj, crypter = None,
               encryptDict = None, encryptObj = None, ids = None,
               majorVersion = 1, minorVersion = 3, pendingObjects = [], acroForm = None,
               heap = h\<rparr>;
          w = snd (addObject w (Ptr infoObj));
          w = snd (addObject w (Ptr catalog));
          w = snd (addObject w (Ptr pages))
      in w)"

definition SetVersion :: "PdfWriter \<Rightarrow> int \<Rightarrow> int \<Rightarrow> PdfWriter" where
  "SetVersion this major minor = this\<lparr>majorVersion := major, minorVersion := minor\<rparr>"

text \<open>\<open>SetOCProperties\<close> drops the error of \<open>addObjects\<close> and returns nil.\<close>

definition SetOCProperties :: "nat \<Rightarrow> PdfWriter \<Rightarrow> PdfObject \<Rightarrow> (error option \<times> PdfWriter) option" where
  "SetOCProperties fuel this ocProperties =
     (if ocProperties \<noteq> NilInterface then
        (let this = this\<lparr>heap := dictSet (heap this) (catalog this) ''OCProperties'' ocProperties\<rparr>
         in case addObjects fuel this ocProperties of
              None \<Rightarrow> None
            | Some (err, this') \<Rightarrow> Some (None, this'))
      else Some (None, this))"

subsection \<open>AddPage\<close>

definition inheritedFields :: "string list" where
  "inheritedFields = [''Resources'', ''MediaBox'', ''CropBox'', ''Rotate'']"

text \<open>The inner loop of the ancestor walk: one pass over the inheritable fields.\<close>

fun inheritFrom :: "heap \<Rightarrow> addr \<Rightarrow> addr \<Rightarrow> string list \<Rightarrow> heap" where
  "inheritFrom h pDict parentDict [] = h"
| "inheritFrom h pDict parentDict (field # rest) =
     (if dictLookup h pDict field \<noteq> None then inheritFrom h pDict parentDict rest
      else
        (case dictLookup h parentDict field of
           Some obj \<Rightarrow> inheritFrom (dictSet h pDict field obj) pDict parentDict rest
         | None \<Rightarrow> inheritFrom h pDict parentDict rest))"

text \<open>
  The loop \<open>for hasParent\<close>. The argument \<open>p\<close> is the \<open>Parent\<close> entry the
  assertion \<open>.(*PdfIndirectObject)\<close> is applied to; the loop ends when it does
  not hold. A chain of parents that runs in a circle never ends: each further
  iteration takes one unit of fuel, \<open>None\<close> when there is none left. The store
  is returned also with an error: the fields copied so far stay copied.
\<close>

fun inheritLoop :: "nat \<Rightarrow> heap \<Rightarrow> addr \<Rightarrow> PdfObject \<Rightarrow> (error option \<times> heap) option" where
  "inheritLoop 0 h pDict p =
     (case asIndirectObject h p of None \<Rightarrow> Some (None, h) | Some (parent, body) \<Rightarrow> None)"
| "inheritLoop (Suc n) h pDict p =
     (case asIndirectObject h p of
        None \<Rightarrow> Some (None, h)
      | Some (parent, body) \<Rightarrow>
          (case asDictionary h body of
             None \<Rightarrow> Some (Some InvalidParent, h)
           | Some parentDict \<Rightarrow>
               (let h = inheritFrom h pDict parentDict inheritedFields
                in inheritLoop n h pDict (dictIndex h parentDict ''Parent''))))"

definition indirectBody :: "heap \<Rightarrow> addr \<Rightarrow> PdfObject" where
  "indirectBody h a =
     (case heapGet h a of Some (PdfIndirectObject n g body) \<Rightarrow> body | _ \<Rightarrow> NilInterface)"

definition setIndirectBody :: "heap \<Rightarrow> addr \<Rightarrow> PdfObject \<Rightarrow> heap" where
  "setIndirectBody h a body =
     (case heapGet h a of Some (PdfIndirectObject n g b) \<Rightarrow> h[a := PdfIndirectObject n g body] | _ \<Rightarrow> h)"

text \<open>The second half of \<open>AddPage\<close>, from "Update the dictionary" on.\<close>

definition addPageToPages ::
  "nat \<Rightarrow> PdfWriter \<Rightarrow> addr \<Rightarrow> addr \<Rightarrow> (error option \<times> PdfWriter) option" where
  "addPageToPages fuel this pageObj pDict =
     (let h = dictSet (heap this) pDict ''Parent'' (Ptr (pages this));
          h = setIndirectBody h pageObj (Ptr pDict)
      in case asDictionary h (indirectBody h (pages this)) of
           None \<Rightarrow> Some (Some InvalidPagesObj, this\<lparr>heap := h\<rparr>)
         | Some pagesDict \<Rightarrow>
      (case asArray h (dictIndex h pagesDict ''Kids'') of
           None \<Rightarrow> Some (Some InvalidPagesKids, this\<lparr>heap := h\<rparr>)
         | Some None \<Rightarrow> Some (Some Panic, this\<lparr>heap := h\<rparr>)
         | Some (Some kids) \<Rightarrow>
      (let h = h[kids := PdfObjectArray (arrayOf h kids @ [Ptr pageObj])]
       in case asInteger h (dictIndex h pagesDict ''Count'') of
           None \<Rightarrow> Some (Some InvalidPagesCount, this\<lparr>heap := h\<rparr>)
         | Some (pageCount, c) \<Rightarrow>
      (let h = h[pageCount := PdfObjectInteger (int64 (c + 1))];
           this = snd (addObject (this\<lparr>heap := h\<rparr>) (Ptr pageObj))
       in addObjects fuel this (Ptr pDict)))))"

text \<open>\<open>AddPage\<close>; \<open>obj\<close> is what \<open>page.ToPdfObject()\<close> returned.\<close>

definition AddPage :: "nat \<Rightarrow> PdfWriter \<Rightarrow> PdfObject \<Rightarrow> (error option \<times> PdfWriter) option" where
  "AddPage fuel this obj =
     (case asIndirectObject (heap this) obj of
        None \<Rightarrow> Some (Some PageNotIndirect, this)
      | Some (pageObj, body) \<Rightarrow>
     (case asDictionary (heap this) body of
        None \<Rightarrow> Some (Some PageNotDictionary, this)
      | Some pDict \<Rightarrow>
     (case asName (heap this) (dictIndex (heap this) pDict ''Type'') of
        None \<Rightarrow> Some (Some PageTypeNotName, this)
      | Some otype \<Rightarrow>
     (if otype \<noteq> ''Page'' then Some (Some TypeNotPage, this)
      else
        (case inheritLoop fuel (heap this) pDict (dictIndex (heap this) pDict ''Parent'') of
           None \<Rightarrow> None
         | Some (Some err, h) \<Rightarrow> Some (Some err, this\<lparr>heap := h\<rparr>)
         | Some (None, h) \<Rightarrow> addPageToPages fuel (this\<lparr>heap := h\<rparr>) pageObj pDict)))))"

definition AddOutlineTree :: "PdfWriter \<Rightarrow> (heap \<Rightarrow> PdfObject \<times> heap) option \<Rightarrow> PdfWriter" where
  "AddOutlineTree this tree = this\<lparr>outlineTree := tree\<rparr>"

subsection \<open>AddForms\<close>

text \<open>
  \<open>seekByName\<close>, with fuel for the depth as in \<open>addObjects\<close>. No path of the
  source returns an error, so the result is the list alone. The inner loop
  over \<open>followKeys\<close> runs its body once, for a key that is among them.
\<close>

fun seekByName :: "nat \<Rightarrow> heap \<Rightarrow> PdfObject \<Rightarrow> string list \<Rightarrow> string \<Rightarrow> PdfObject list option"
  and seekByNameDict ::
    "nat \<Rightarrow> heap \<Rightarrow> (string \<times> PdfObject) list \<Rightarrow> string list \<Rightarrow> string \<Rightarrow> PdfObject list
       \<Rightarrow> PdfObject list option"
where
  "seekByName 0 h obj followKeys key = None"
| "seekByName (Suc n) h obj followKeys key =
     (case asIndirectObject h obj of
        Some (io, body) \<Rightarrow> seekByName n h body followKeys key
      | None \<Rightarrow>
     (case asStream h obj of
        Some (so, d) \<Rightarrow> seekByName n h (Ptr d) followKeys key
      | None \<Rightarrow>
     (case asDictionary h obj of
        Some dict \<Rightarrow> seekByNameDict n h (dictOf h dict) followKeys key []
      | None \<Rightarrow> Some [])))"
| "seekByNameDict n h [] followKeys key list = Some list"
| "seekByNameDict n h ((k, v) # kvs) followKeys key list =
     (let list = (if k = key then list @ [v] else list)
      in if k \<in> set followKeys then
           (case seekByName n h v followKeys key of
              None \<Rightarrow> None
            | Some items \<Rightarrow> seekByNameDict n h kvs followKeys key (list @ items))
         else seekByNameDict n h kvs followKeys key list)"

text \<open>The loop over the \<open>P\<close> entries found for one field.\<close>

fun checkPEntries :: "PdfWriter \<Rightarrow> PdfObject list \<Rightarrow> bool \<Rightarrow> error + bool" where
  "checkPEntries this [] includeField = Inr includeField"
| "checkPEntries this (p # ps) includeField =
     (case asIndirectObject (heap this) p of
        Some (po, body) \<Rightarrow>
          (if hasObject this p then checkPEntries this ps True else Inl POutsideWritePages)
      | None \<Rightarrow> checkPEntries this ps includeField)"

fun addFormsFields :: "nat \<Rightarrow> PdfWriter \<Rightarrow> PdfObject list \<Rightarrow> (error option \<times> PdfWriter) option" where
  "addFormsFields fuel this [] = Some (None, this)"
| "addFormsFields fuel this (field # rest) =
     (case asIndirectObject (heap this) field of
        None \<Rightarrow> Some (Some FieldNotIndirect, this)
      | Some (fieldObj, body) \<Rightarrow>
          (case seekByName fuel (heap this) field [''Fields'', ''Kids''] ''P'' of
             None \<Rightarrow> None
           | Some list \<Rightarrow>
               (if length list < 1 then addFormsFields fuel this rest
                else
                  (case checkPEntries this list False of
                     Inl err \<Rightarrow> Some (Some err, this)
                   | Inr includeField \<Rightarrow>
                       (if includeField then
                          (let this = snd (addObject this field);
                               this = this\<lparr>formFields := formFields this @ [field]\<rparr>
                           in addFormsFields fuel this rest)
                        else addFormsFields fuel this rest)))))"

text \<open>\<open>AddForms\<close>; \<open>forms\<close> is a \<open>*PdfObjectDictionary\<close>, \<open>None\<close> when nil.\<close>

definition AddForms :: "nat \<Rightarrow> PdfWriter \<Rightarrow> addr option \<Rightarrow> (error option \<times> PdfWriter) option" where
  "AddForms fuel this forms =
     (case forms of
        None \<Rightarrow> Some (Some FormsNil, this)
      | Some f \<Rightarrow>
          (let h = heap this;
               fieldsArray =
                 (case dictLookup h f ''Fields'' of
                    None \<Rightarrow> None
                  | Some fs \<Rightarrow>
                      (case asArray h fs of
                         Some arr \<Rightarrow> arr
                       | None \<Rightarrow>
                           (case asIndirectObject h fs of
                              Some (ind, body) \<Rightarrow>
                                (case asArray h body of Some arr \<Rightarrow> arr | None \<Rightarrow> None)
                            | None \<Rightarrow> None)))
           in case fieldsArray of
                None \<Rightarrow> Some (None, this)
              | Some arr \<Rightarrow> addFormsFields fuel this (arrayOf h arr)))"

definition AddForms2 :: "PdfWriter \<Rightarrow> (heap \<Rightarrow> PdfObject \<times> heap) option \<Rightarrow> PdfWriter" where
  "AddForms2 this form = this\<lparr>acroForm := form\<rparr>"

subsection \<open>Formatting\<close>

text \<open>
  What \<open>fmt.Sprintf\<close> does with the verbs the writer uses: \<open>%d\<close> is \<open>showInt\<close>,
  \<open>%.10d\<close> and \<open>%.5d\<close> are \<open>showIntPrec 10\<close> and \<open>showIntPrec 5\<close> (a precision on
  an integer is the least number of digits, filled with zeros on the left).
\<close>

definition digitChar :: "nat \<Rightarrow> char" where
  "digitChar d = ''0123456789'' ! d"

function showNat :: "nat \<Rightarrow> string" where
  "showNat n = (if n < 10 then [digitChar n] else showNat (n div 10) @ [digitChar (n mod 10)])"
  by pat_completeness auto
termination
  by (relation "measure (\<lambda>n. n)") auto

declare showNat.simps [simp del]

definition showIntPrec :: "nat \<Rightarrow> int \<Rightarrow> string" where
  "showIntPrec prec i =
     (let ds = showNat (nat \<bar>i\<bar>);
          padded = replicate (prec - length ds) (CHR ''0'') @ ds
      in if i < 0 then CHR ''-'' # padded else padded)"

definition showInt :: "int \<Rightarrow> string" where
  "showInt i = showIntPrec 0 i"

definition LF :: string where
  "LF = [CHR 0x0A]"

definition CRLF :: string where
  "CRLF = [CHR 0x0D, CHR 0x0A]"

subsection \<open>Object numbers and object output\<close>

text \<open>
  The body of the loop of \<open>updateObjectNumbers\<close>: both \<open>if\<close>s, of which at most
  one applies to a cell.
\<close>

definition setObjectNumber :: "heap \<Rightarrow> PdfObject \<Rightarrow> int \<Rightarrow> heap" where
  "setObjectNumber h obj num =
     (case obj of
        Ptr a \<Rightarrow>
          (case heapGet h a of
             Some (PdfIndirectObject n g body) \<Rightarrow> h[a := PdfIndirectObject num 0 body]
           | Some (PdfObjectStream n g d bs) \<Rightarrow> h[a := PdfObjectStream num 0 d bs]
           | _ \<Rightarrow> h)
      | _ \<Rightarrow> h)"

text \<open>
  The loop, from index \<open>idx\<close> over the objects still to visit. \<open>int64(idx + 1)\<close>
  is \<open>idx + 1\<close>: the length of a slice is below \<open>2 ^ 63\<close>.
\<close>

fun updateObjectNumbersFrom :: "heap \<Rightarrow> nat \<Rightarrow> PdfObject list \<Rightarrow> heap" where
  "updateObjectNumbersFrom h idx [] = h"
| "updateObjectNumbersFrom h idx (obj # objs) =
     updateObjectNumbersFrom (setObjectNumber h obj (int idx + 1)) (Suc idx) objs"

definition updateObjectNumbers :: "PdfWriter \<Rightarrow> PdfWriter" where
  "updateObjectNumbers this = this\<lparr>heap := updateObjectNumbersFrom (heap this) 0 (objects this)\<rparr>"

text \<open>
  \<open>writeObject\<close>: the bytes it hands to the writer. \<open>DefaultWriteString\<close>, the
  serialisation of package \<open>core\<close>, is the parameter \<open>dws\<close>: the text of an
  object in a given store. The method calls it through the interface: on the
  nil interface (an indirect object that holds no object, or no object at
  all) the call is a nil pointer dereference, and the method panics before
  it writes anything.
\<close>

definition writeObject ::
  "(heap \<Rightarrow> PdfObject \<Rightarrow> string) \<Rightarrow> heap \<Rightarrow> int \<Rightarrow> PdfObject \<Rightarrow> error + string" where
  "writeObject dws h num obj =
     (case deref h obj of
        Some (PdfIndirectObject n g body) \<Rightarrow>
          (if body = NilInterface then Inl Panic
           else Inr (showInt num @ '' 0 obj'' @ LF @ dws h body @ LF @ ''endobj'' @ LF))
      | Some (PdfObjectStream n g d bs) \<Rightarrow>
          Inr (showInt num @ '' 0 obj'' @ LF @ dws h (Ptr d) @ LF @ ''stream'' @ LF
                 @ bs @ LF @ ''endstream'' @ LF @ ''endobj'' @ LF)
      | _ \<Rightarrow> (if obj = NilInterface then Inl Panic else Inr (dws h obj)))"

subsection \<open>Encrypt\<close>

text \<open>
  \<open>PdfWriter.Encrypt\<close>. Collaborators outside the source files are
  parameters: \<open>alg3\<close> and \<open>alg5\<close> are \<open>PdfCrypt.Alg3\<close> and \<open>PdfCrypt.Alg5\<close> (they
  read the handler's state); \<open>hash0\<close> and \<open>hash1\<close> are the two MD5 sums, of the
  formatted time and of the random bytes. Of \<open>AccessPermissions\<close> (package
  \<open>core\<close>) the method only calls \<open>GetP()\<close>; the struct is given by the number
  that call returns.
  \<open>options\<close> is \<open>None\<close> for a nil pointer. \<open>this.crypter\<close> points to the
  local \<open>crypter\<close>, so every later assignment to the local shows in the writer,
  also when the method returns early with an error.
\<close>

record AccessPermissions =
  GetP :: int

record EncryptOptions =
  Permissions :: AccessPermissions

definition Encrypt ::
  "(PdfCrypt \<Rightarrow> string \<Rightarrow> string \<Rightarrow> error + string) \<Rightarrow>
   (PdfCrypt \<Rightarrow> string \<Rightarrow> error + string \<times> string) \<Rightarrow>
   string \<Rightarrow> string \<Rightarrow>
   PdfWriter \<Rightarrow> string \<Rightarrow> string \<Rightarrow> EncryptOptions option \<Rightarrow> error option \<times> PdfWriter" where
  "Encrypt alg3 alg5 hash0 hash1 this userPass ownerPass options =
     (let crypter = \<lparr>EncryptedObjects = [],
                     CryptFilters = mapSet [] ''Default'' \<lparr>Cfm = ''V2'', FilterLength = 128\<rparr>,
                     cryptP = - 1, cryptV = 2, cryptR = 3, cryptLength = 128,
                     EncryptMetadata = True, Id0 = [], cryptO = [], cryptU = [],
                     EncryptionKey = []\<rparr>;
          crypter = (case options of
                       Some opts \<Rightarrow> crypter\<lparr>cryptP := GetP (Permissions opts)\<rparr>
                     | None \<Rightarrow> crypter);
          (id0, h) = alloc (heap this) (PdfObjectString hash0);
          (id1, h) = alloc h (PdfObjectString hash1);
          (idArr, h) = alloc h (PdfObjectArray [Ptr id0, Ptr id1]);
          crypter = crypter\<lparr>Id0 := hash0\<rparr>;
          this = this\<lparr>ids := Some idArr, heap := h\<rparr>
      in case alg3 crypter userPass ownerPass of
           Inl err \<Rightarrow> (Some err, this\<lparr>crypter := Some crypter\<rparr>)
         | Inr ownerKey \<Rightarrow>
      (let crypter = crypter\<lparr>cryptO := ownerKey\<rparr>
       in case alg5 crypter userPass of
           Inl err \<Rightarrow> (Some err, this\<lparr>crypter := Some crypter\<rparr>)
         | Inr (userKey, key) \<Rightarrow>
      (let crypter = crypter\<lparr>cryptU := userKey, EncryptionKey := key\<rparr>;
           (encDict, h) = alloc h (PdfObjectDictionary []);
           (filter, h) = MakeName h ''Standard'';
           h = dictSet h encDict ''Filter'' (Ptr filter);
           (p, h) = MakeInteger h (cryptP crypter);
           h = dictSet h encDict ''P'' (Ptr p);
           (v, h) = MakeInteger h (cryptV crypter);
           h = dictSet h encDict ''V'' (Ptr v);
           (r, h) = MakeInteger h (cryptR crypter);
           h = dictSet h encDict ''R'' (Ptr r);
           (len, h) = MakeInteger h (cryptLength crypter);
           h = dictSet h encDict ''Length'' (Ptr len);
           (ownerObj, h) = alloc h (PdfObjectString ownerKey);
           h = dictSet h encDict ''O'' (Ptr ownerObj);
           (userObj, h) = alloc h (PdfObjectString userKey);
           h = dictSet h encDict ''U'' (Ptr userObj);
           (io, h) = alloc h (PdfIndirectObject 0 0 (Ptr encDict));
           this = this\<lparr>crypter := Some crypter, encryptDict := Some encDict,
                        encryptObj := Some io, heap := h\<rparr>
       in (None, snd (addObject this (Ptr io))))))"

subsection \<open>Write\<close>

text \<open>
  The loop "Check pending objects prior to write". \<open>nullFirstEntry\<close> is the
  inner loop over the entries of one dictionary: the first entry whose value
  is the pending object gets a fresh null, and the loop breaks.
\<close>

fun nullFirstEntry :: "heap \<Rightarrow> addr \<Rightarrow> PdfObject \<Rightarrow> (string \<times> PdfObject) list \<Rightarrow> heap" where
  "nullFirstEntry h pendingObjDict pendingObj [] = h"
| "nullFirstEntry h pendingObjDict pendingObj ((key, val) # kvs) =
     (if val = pendingObj then
        (let (null, h) = MakeNull h in dictSet h pendingObjDict key (Ptr null))
      else nullFirstEntry h pendingObjDict pendingObj kvs)"

fun checkPending :: "PdfWriter \<Rightarrow> (PdfObject \<times> addr) list \<Rightarrow> PdfWriter" where
  "checkPending this [] = this"
| "checkPending this ((pendingObj, pendingObjDict) # rest) =
     (if \<not> hasObject this pendingObj then
        checkPending
          (this\<lparr>heap := nullFirstEntry (heap this) pendingObjDict pendingObj
                           (dictOf (heap this) pendingObjDict)\<rparr>) rest
      else checkPending this rest)"

text \<open>
  "Encrypt prior to writing. Encrypt dictionary should not be encrypted."
  \<open>encrypt\<close> is \<open>PdfCrypt.Encrypt\<close> (package \<open>core\<close>): from the handler's state,
  the store, the object, its number and generation to an error or the new
  state and store. With no \<open>encryptObj\<close> the test \<open>obj != this.encryptObj\<close>
  holds of every object.
\<close>

definition encryptObject ::
  "(PdfCrypt \<Rightarrow> heap \<Rightarrow> PdfObject \<Rightarrow> int \<Rightarrow> int \<Rightarrow> error + PdfCrypt \<times> heap) \<Rightarrow>
   PdfWriter \<Rightarrow> PdfObject \<Rightarrow> nat \<Rightarrow> error + PdfWriter" where
  "encryptObject encrypt this obj idx =
     (case crypter this of
        Some c \<Rightarrow>
          (if (case encryptObj this of None \<Rightarrow> True | Some e \<Rightarrow> obj \<noteq> Ptr e) then
             (case encrypt c (heap this) obj (int idx + 1) 0 of
                Inl err \<Rightarrow> Inl err
              | Inr (c', h') \<Rightarrow> Inr (this\<lparr>crypter := Some c', heap := h'\<rparr>))
           else Inr this)
      | None \<Rightarrow> Inr this)"

text \<open>
  The loop "Write objects", from index \<open>idx\<close>, with the offsets gathered and
  the contents \<open>ws\<close> of the sink so far. The sink takes every byte written to
  it; \<open>Seek(0, os.SEEK_CUR)\<close> after \<open>Flush\<close> is then the number of bytes it
  holds. The loop ends at the first object whose encryption fails, with that
  error, and at the first object on which \<open>writeObject\<close> panics, after that
  object's encryption.
\<close>

fun writeObjects ::
  "(heap \<Rightarrow> PdfObject \<Rightarrow> string) \<Rightarrow>
   (PdfCrypt \<Rightarrow> heap \<Rightarrow> PdfObject \<Rightarrow> int \<Rightarrow> int \<Rightarrow> error + PdfCrypt \<times> heap) \<Rightarrow>
   PdfWriter \<Rightarrow> nat \<Rightarrow> PdfObject list \<Rightarrow> int list \<Rightarrow> string \<Rightarrow>
   error option \<times> PdfWriter \<times> int list \<times> string" where
  "writeObjects dws encrypt this idx [] offsets ws = (None, this, offsets, ws)"
| "writeObjects dws encrypt this idx (obj # objs) offsets ws =
     (let offset = int (length ws);
          offsets = offsets @ [offset]
      in case encryptObject encrypt this obj idx of
           Inl err \<Rightarrow> (Some err, this, offsets, ws)
         | Inr this \<Rightarrow>
             (case writeObject dws (heap this) (int idx + 1) obj of
                Inl err \<Rightarrow> (Some err, this, offsets, ws)
              | Inr out \<Rightarrow> writeObjects dws encrypt this (Suc idx) objs offsets (ws @ out)))"

text \<open>The cross-reference table, for the offsets gathered.\<close>

definition xrefTable :: "nat \<Rightarrow> int list \<Rightarrow> string" where
  "xrefTable nObjects offsets =
     ''xref'' @ CRLF
     @ showInt 0 @ '' '' @ showInt (int nObjects + 1) @ CRLF
     @ showIntPrec 10 0 @ '' '' @ showIntPrec 5 65535 @ '' f'' @ CRLF
     @ concat (map (\<lambda>offset. showIntPrec 10 offset @ '' '' @ showIntPrec 5 0 @ '' n'' @ CRLF) offsets)"

text \<open>
  The trailer dictionary: the store with it and its address. A writer with a
  \<open>crypter\<close> but a nil \<open>encryptObj\<close> would store a nil \<open>*PdfIndirectObject\<close>,
  which the store cannot hold; the nil interface stands in.
\<close>

definition makeTrailer :: "PdfWriter \<Rightarrow> addr \<times> heap" where
  "makeTrailer this =
     (let (trailer, h) = alloc (heap this) (PdfObjectDictionary []);
          h = dictSet h trailer ''Info'' (Ptr (infoObj this));
          h = dictSet h trailer ''Root'' (Ptr (root this));
          (size, h) = MakeInteger h (int (length (objects this)) + 1);
          h = dictSet h trailer ''Size'' (Ptr size);
          h = (if crypter this \<noteq> None then
                 (let h = dictSet h trailer ''Encrypt''
                            (case encryptObj this of Some e \<Rightarrow> Ptr e | None \<Rightarrow> NilInterface)
                  in dictSet h trailer ''ID''
                       (case ids this of Some a \<Rightarrow> Ptr a | None \<Rightarrow> NilArrayPtr))
               else h)
      in (trailer, h))"

text \<open>The high-bit comment line: the bytes of the UTF-8 source text, ten with the line feed.\<close>

definition binaryMarker :: string where
  "binaryMarker =
     [CHR 0x25, CHR 0xC3, CHR 0xA2, CHR 0xC3, CHR 0xA3, CHR 0xC3, CHR 0x8F, CHR 0xC3, CHR 0x93,
      CHR 0x0A]"

text \<open>
  Attaching the outline tree and the AcroForm: \<open>key\<close> is the catalog entry,
  \<open>toPdfObject\<close> the collaborator's method.
\<close>

definition attachToCatalog ::
  "nat \<Rightarrow> PdfWriter \<Rightarrow> string \<Rightarrow> (heap \<Rightarrow> PdfObject \<times> heap) \<Rightarrow> (error option \<times> PdfWriter) option" where
  "attachToCatalog fuel this key toPdfObject =
     (let (obj, h) = toPdfObject (heap this);
          h = dictSet h (catalog this) key obj
      in addObjects fuel (this\<lparr>heap := h\<rparr>) obj)"

text \<open>"Set version in the catalog."\<close>

definition stampVersion :: "PdfWriter \<Rightarrow> PdfWriter" where
  "stampVersion this =
     (let (version, h) = MakeName (heap this)
                           (showInt (majorVersion this) @ ''.'' @ showInt (minorVersion this))
      in this\<lparr>heap := dictSet h (catalog this) ''Version'' (Ptr version)\<rparr>)"

text \<open>The two lines written before the objects.\<close>

definition fileHeader :: "PdfWriter \<Rightarrow> string" where
  "fileHeader this =
     ''%PDF-'' @ showInt (majorVersion this) @ ''.'' @ showInt (minorVersion this) @ LF
     @ binaryMarker"

text \<open>
  What \<open>Write\<close> does after the loop over the objects: the cross-reference
  table, the trailer, \<open>startxref\<close> and the end-of-file line.
\<close>

definition writeTail ::
  "(heap \<Rightarrow> PdfObject \<Rightarrow> string) \<Rightarrow> PdfWriter \<Rightarrow> int list \<Rightarrow> string \<Rightarrow> PdfWriter \<times> string" where
  "writeTail dws this offsets ws =
     (let xrefOffset = int (length ws);
          ws = ws @ xrefTable (length (objects this)) offsets;
          (trailer, h) = makeTrailer this;
          this = this\<lparr>heap := h\<rparr>;
          ws = ws @ ''trailer'' @ LF @ dws h (Ptr trailer) @ LF;
          ws = ws @ ''startxref'' @ LF @ showInt xrefOffset @ LF;
          ws = ws @ ''%%EOF'' @ LF
      in (this, ws))"

text \<open>
  \<open>Write\<close>, from "Check pending objects" on: no step of it fails but the
  encryption of an object and the writing of an object that makes
  \<open>writeObject\<close> panic. The result is the error, the writer and the sink.
  Writes never fail in the model, and what the buffered writer still holds
  when the method ends early counts as written.
\<close>

definition writeBody ::
  "(heap \<Rightarrow> PdfObject \<Rightarrow> string) \<Rightarrow>
   (PdfCrypt \<Rightarrow> heap \<Rightarrow> PdfObject \<Rightarrow> int \<Rightarrow> int \<Rightarrow> error + PdfCrypt \<times> heap) \<Rightarrow>
   PdfWriter \<Rightarrow> string \<Rightarrow> error option \<times> PdfWriter \<times> string" where
  "writeBody dws encrypt this ws =
     (let this = checkPending this (pendingObjects this);
          this = stampVersion this;
          ws = ws @ fileHeader this;
          this = updateObjectNumbers this
      in case writeObjects dws encrypt this 0 (objects this) [] ws of
           (Some err, this, offsets, ws) \<Rightarrow> (Some err, this, ws)
         | (None, this, offsets, ws) \<Rightarrow>
             (case writeTail dws this offsets ws of (this, ws) \<Rightarrow> (None, this, ws)))"

text \<open>
  The first part of \<open>Write\<close>, "Outlines" and "Acroform": the objects of the
  two collaborators are set in the catalog and traversed, and the first
  traversal that fails ends the method.
\<close>

definition attachOutlinesAndForms :: "nat \<Rightarrow> PdfWriter \<Rightarrow> (error option \<times> PdfWriter) option" where
  "attachOutlinesAndForms fuel this =
     (case (case outlineTree this of
              Some tree \<Rightarrow> attachToCatalog fuel this ''Outlines'' tree
            | None \<Rightarrow> Some (None, this)) of
        None \<Rightarrow> None
      | Some (Some err, this) \<Rightarrow> Some (Some err, this)
      | Some (None, this) \<Rightarrow>
          (case acroForm this of
             Some form \<Rightarrow> attachToCatalog fuel this ''AcroForm'' form
           | None \<Rightarrow> Some (None, this)))"

text \<open>\<open>Write\<close>. \<open>None\<close>: a traversal ran out of fuel.\<close>

definition Write ::
  "(heap \<Rightarrow> PdfObject \<Rightarrow> string) \<Rightarrow>
   (PdfCrypt \<Rightarrow> heap \<Rightarrow> PdfObject \<Rightarrow> int \<Rightarrow> int \<Rightarrow> error + PdfCrypt \<times> heap) \<Rightarrow>
   nat \<Rightarrow> PdfWriter \<Rightarrow> string \<Rightarrow> (error option \<times> PdfWriter \<times> string) option" where
  "Write dws encrypt fuel this ws =
     (case attachOutlinesAndForms fuel this of
        None \<Rightarrow> None
      | Some (Some err, this) \<Rightarrow> Some (Some err, this, ws)
      | Some (None, this) \<Rightarrow> Some (writeBody dws encrypt this ws))"

section \<open>Content streams: text extraction\<close>

text \<open>
  A \<open>ContentStreamOperation\<close>; its parameters are objects of the store.
\<close>

record ContentStreamOperation =
  Params :: "PdfObject list"
  Operand :: string

text \<open>The loop over the string elements of a \<open>TJ\<close> array.\<close>

fun appendStrings :: "heap \<Rightarrow> string \<Rightarrow> PdfObject list \<Rightarrow> string" where
  "appendStrings h txt [] = txt"
| "appendStrings h txt (obj # objs) =
     (case asString h obj of
        Some s \<Rightarrow> appendStrings h (txt @ s) objs
      | None \<Rightarrow> appendStrings h txt objs)"

text \<open>
  The loop of \<open>ExtractText\<close> over the operations, with \<open>inText\<close> and \<open>txt\<close>.
  An operation is \<open>BT\<close> or \<open>ET\<close> or neither, then a line operator or not, then
  \<open>TJ\<close> or \<open>Tj\<close> inside a text object; \<open>continue\<close> goes on with the next one.
\<close>

fun extractTextFrom :: "heap \<Rightarrow> bool \<Rightarrow> string \<Rightarrow> ContentStreamOperation list \<Rightarrow> error + string" where
  "extractTextFrom h inText txt [] = Inr txt"
| "extractTextFrom h inText txt (op # ops) =
     (let inText = (if Operand op = ''BT'' then True
                    else if Operand op = ''ET'' then False else inText);
          txt = (if Operand op = ''Td'' \<or> Operand op = ''TD'' \<or> Operand op = ''T*''
                 then txt @ LF else txt)
      in if inText \<and> Operand op = ''TJ'' then
           (if length (Params op) < 1 then extractTextFrom h inText txt ops
            else
              (case asArray h (hd (Params op)) of
                 None \<Rightarrow> Inl TJParamNotArray
               | Some None \<Rightarrow> Inl Panic
               | Some (Some paramList) \<Rightarrow>
                   extractTextFrom h inText (appendStrings h txt (arrayOf h paramList)) ops))
         else if inText \<and> Operand op = ''Tj'' then
           (if length (Params op) < 1 then extractTextFrom h inText txt ops
            else
              (case asString h (hd (Params op)) of
                 None \<Rightarrow> Inl TjParamNotString
               | Some param \<Rightarrow> extractTextFrom h inText (txt @ param) ops))
         else extractTextFrom h inText txt ops)"

text \<open>
  \<open>ExtractText\<close>. \<open>ContentStreamParser.Parse\<close> is not among the source files:
  the parameter \<open>parse\<close> takes the bytes of the content stream to its error or
  to the operations with the store that holds their parameters.
\<close>

definition ExtractText ::
  "(string \<Rightarrow> error + ContentStreamOperation list \<times> heap) \<Rightarrow> string \<Rightarrow> error + string" where
  "ExtractText parse content =
     (case parse content of
        Inl err \<Rightarrow> Inl err
      | Inr (operations, h) \<Rightarrow> extractTextFrom h False [] operations)"

section \<open>Notions for the statements\<close>

text \<open>\<open>ObjectNumber\<close> and \<open>GenerationNumber\<close> of an indirect object or a stream.\<close>

definition cellNumber :: "cell \<Rightarrow> (int \<times> int) option" where
  "cellNumber c =
     (case c of
        PdfIndirectObject n g body \<Rightarrow> Some (n, g)
      | PdfObjectStream n g d bs \<Rightarrow> Some (n, g)
      | _ \<Rightarrow> None)"

definition objectNumber :: "heap \<Rightarrow> PdfObject \<Rightarrow> (int \<times> int) option" where
  "objectNumber h obj = (case deref h obj of Some c \<Rightarrow> cellNumber c | None \<Rightarrow> None)"

text \<open>
  A later store keeps the numbers of an earlier one: every cell is still
  there, with the object number and generation it had (or with none).
\<close>

definition keepsNumbers :: "heap \<Rightarrow> heap \<Rightarrow> bool" where
  "keepsNumbers h h' \<longleftrightarrow>
     length h \<le> length h' \<and> (\<forall>a < length h. cellNumber (h' ! a) = cellNumber (h ! a))"

text \<open>
  The list of objects of a later writer extends that of an earlier one at the
  end, and holds no object twice if the earlier one did not.
\<close>

definition grows :: "PdfWriter \<Rightarrow> PdfWriter \<Rightarrow> bool" where
  "grows w w' \<longleftrightarrow> prefix (objects w) (objects w') \<and> (distinct (objects w) \<longrightarrow> distinct (objects w'))"

text \<open>
  One step in the life of a writer: a call of one of its methods that
  returns, or the program changing objects of the store between two calls.
  A writer is reachable when it comes from \<open>NewPdfWriter\<close> by such steps.
\<close>

inductive step :: "PdfWriter \<Rightarrow> PdfWriter \<Rightarrow> bool" where
  step_addObject: "step w (snd (addObject w obj))"
| step_addObjects: "addObjects fuel w obj = Some (r, w') \<Longrightarrow> step w w'"
| step_SetOCProperties: "SetOCProperties fuel w obj = Some (r, w') \<Longrightarrow> step w w'"
| step_AddPage: "AddPage fuel w obj = Some (r, w') \<Longrightarrow> step w w'"
| step_AddForms: "AddForms fuel w forms = Some (r, w') \<Longrightarrow> step w w'"
| step_Encrypt: "Encrypt alg3 alg5 hash0 hash1 w userPass ownerPass options = (r, w') \<Longrightarrow> step w w'"
| step_Write: "Write dws encrypt fuel w ws = Some (r, w', ws') \<Longrightarrow> step w w'"
| step_SetVersion: "step w (SetVersion w major minor)"
| step_AddOutlineTree: "step w (AddOutlineTree w tree)"
| step_AddForms2: "step w (AddForms2 w form)"
| step_program: "step w (w\<lparr>heap := h\<rparr>)"

inductive reachable :: "PdfWriter \<Rightarrow> bool" where
  reachable_new: "reachable (NewPdfWriter h pdfProducer pdfCreator version)"
| reachable_step: "reachable w \<Longrightarrow> step w w' \<Longrightarrow> reachable w'"

text \<open>
  The ancestors of a page, as the walk of \<open>AddPage\<close> meets them in a given
  store: from the \<open>Parent\<close> entry \<open>p\<close>, the dictionaries of the indirect objects
  reached through \<open>Parent\<close> entries, nearest first. The walk ends well (\<open>True\<close>)
  at a \<open>Parent\<close> entry that is not an indirect object, and badly (\<open>False\<close>) at
  an indirect object that holds no dictionary. \<open>None\<close>: the chain is longer
  than the fuel, as a chain that runs in a circle is for every fuel.
\<close>

fun parentChain :: "nat \<Rightarrow> heap \<Rightarrow> PdfObject \<Rightarrow> (bool \<times> addr list) option" where
  "parentChain 0 h p =
     (case asIndirectObject h p of None \<Rightarrow> Some (True, []) | Some (parent, body) \<Rightarrow> None)"
| "parentChain (Suc n) h p =
     (case asIndirectObject h p of
        None \<Rightarrow> Some (True, [])
      | Some (parent, body) \<Rightarrow>
          (case asDictionary h body of
             None \<Rightarrow> Some (False, [])
           | Some parentDict \<Rightarrow>
               (case parentChain n h (dictIndex h parentDict ''Parent'') of
                  None \<Rightarrow> None
                | Some (ok, ds) \<Rightarrow> Some (ok, parentDict # ds))))"

text \<open>
  The value of a field at the nearest of the given ancestors that has it, and
  the effective value of a page's field: the page's own, else the nearest
  ancestor's.
\<close>

fun nearest :: "heap \<Rightarrow> addr list \<Rightarrow> string \<Rightarrow> PdfObject option" where
  "nearest h [] field = None"
| "nearest h (d # ds) field =
     (case dictLookup h d field of Some v \<Rightarrow> Some v | None \<Rightarrow> nearest h ds field)"

definition effective :: "heap \<Rightarrow> addr \<Rightarrow> addr list \<Rightarrow> string \<Rightarrow> PdfObject option" where
  "effective h pDict ds field =
     (case dictLookup h pDict field of Some v \<Rightarrow> Some v | None \<Rightarrow> nearest h ds field)"

text \<open>
  Two stores are of the same shape when the same objects are indirect objects
  and dictionaries in both, with the same \<open>Parent\<close> entries.
\<close>

definition sameShape :: "heap \<Rightarrow> heap \<Rightarrow> bool" where
  "sameShape h h' \<longleftrightarrow>
     (\<forall>obj. asIndirectObject h' obj = asIndirectObject h obj)
   \<and> (\<forall>obj. asDictionary h' obj = asDictionary h obj)
   \<and> (\<forall>d. dictIndex h' d ''Parent'' = dictIndex h d ''Parent'')"

text \<open>
  Every object of a list is an indirect object or a stream of the store, as
  the objects are that the writer registers.
\<close>

definition allNumbered :: "heap \<Rightarrow> PdfObject list \<Rightarrow> bool" where
  "allNumbered h objs \<longleftrightarrow> (\<forall>obj \<in> set objs. objectNumber h obj \<noteq> None)"

text \<open>
  An object that \<open>writeObject\<close> writes as an object of the file: a stream, or
  an indirect object that holds an object.
\<close>

definition writable :: "heap \<Rightarrow> PdfObject \<Rightarrow> bool" where
  "writable h obj =
     (case deref h obj of
        Some (PdfIndirectObject n g body) \<Rightarrow> body \<noteq> NilInterface
      | Some (PdfObjectStream n g d bs) \<Rightarrow> True
      | _ \<Rightarrow> False)"

text \<open>The text an object with index \<open>i\<close> starts with in the output: \<open>i + 1\<close>, \<open>0 obj\<close>, a line feed.\<close>

definition marker :: "nat \<Rightarrow> string" where
  "marker i = showInt (int i + 1) @ '' 0 obj'' @ LF"


text \<open>
  The objects of a list with the numbers \<open>idx + 1\<close>, \<open>idx + 2\<close>, ..., and those
  of them that are not the writer's \<open>encryptObj\<close>.
\<close>

fun numbered :: "nat \<Rightarrow> PdfObject list \<Rightarrow> (PdfObject \<times> int) list" where
  "numbered idx [] = []"
| "numbered idx (obj # objs) = (obj, int idx + 1) # numbered (Suc idx) objs"

definition toEncrypt :: "PdfWriter \<Rightarrow> nat \<Rightarrow> PdfObject list \<Rightarrow> (PdfObject \<times> int) list" where
  "toEncrypt this idx objs =
     filter (\<lambda>(obj, num). Some obj \<noteq> map_option Ptr (encryptObj this)) (numbered idx objs)"

section \<open>Writers for the examples\<close>

text \<open>
  A writer in the state \<open>NewPdfWriter\<close> leaves it in, but for its four
  pointers, its list of objects and the store, which are given: the writers of
  the witnesses and counterexamples below.
\<close>

definition writerWith :: "addr \<Rightarrow> addr \<Rightarrow> addr \<Rightarrow> addr \<Rightarrow> PdfObject list \<Rightarrow> heap \<Rightarrow> PdfWriter" where
  "writerWith r p c i objs h =
     \<lparr>root = r, pages = p, objects = objs, outlineTree = None, catalog = c, formFields = [],
      infoObj = i, crypter = None, encryptDict = None, encryptObj = None, ids = None,
      majorVersion = 1, minorVersion = 3, pendingObjects = [], acroForm = None, heap = h\<rparr>"

text \<open>
  A parser for the witness of the text extraction: the three content streams
  of the examples with their operations, each operator with the operands
  before it, and the store that holds the operands; an error for every other
  input.
\<close>

definition parseExamples :: "string \<Rightarrow> error + ContentStreamOperation list \<times> heap" where
  "parseExamples content =
     (if content = ''BT (Hello) Tj ET'' then
        Inr ([\<lparr>Params = [], Operand = ''BT''\<rparr>, \<lparr>Params = [Ptr 0], Operand = ''Tj''\<rparr>,
              \<lparr>Params = [], Operand = ''ET''\<rparr>],
             [PdfObjectString ''Hello''])
      else if content = ''BT [(Hel)-20(lo)] TJ ET'' then
        Inr ([\<lparr>Params = [], Operand = ''BT''\<rparr>, \<lparr>Params = [Ptr 3], Operand = ''TJ''\<rparr>,
              \<lparr>Params = [], Operand = ''ET''\<rparr>],
             [PdfObjectString ''Hel'', PdfObjectInteger (- 20), PdfObjectString ''lo'',
              PdfObjectArray [Ptr 0, Ptr 1, Ptr 2]])
      else if content = ''BT (A) Tj T* (B) Tj ET'' then
        Inr ([\<lparr>Params = [], Operand = ''BT''\<rparr>, \<lparr>Params = [Ptr 0], Operand = ''Tj''\<rparr>,
              \<lparr>Params = [], Operand = ''T*''\<rparr>, \<lparr>Params = [Ptr 1], Operand = ''Tj''\<rparr>,
              \<lparr>Params = [], Operand = ''ET''\<rparr>],
             [PdfObjectString ''A'', PdfObjectString ''B''])
      else Inl (External ''parse''))"

text \<open>
  A store with a page tree: the writer's \<open>Pages\<close> node (cells 0 to 3), and a
  page (13, dictionary 12) below a parent (11, dictionary 10) below a
  grandparent (8, dictionary 7). Parent and grandparent each have a
  \<open>MediaBox\<close>, the page has none, and the grandparent's own \<open>Parent\<close> is an
  unresolved reference (5).
\<close>

definition exampleTree :: heap where
  "exampleTree =
     [PdfObjectArray [],
      PdfObjectInteger 0,
      PdfObjectDictionary [(''Kids'', Ptr 0), (''Count'', Ptr 1)],
      PdfIndirectObject 0 0 (Ptr 2),
      PdfObjectName ''Page'',
      PdfObjectReference 9 0,
      PdfObjectArray [],
      PdfObjectDictionary [(''MediaBox'', Ptr 6), (''Parent'', Ptr 5)],
      PdfIndirectObject 0 0 (Ptr 7),
      PdfObjectArray [],
      PdfObjectDictionary [(''MediaBox'', Ptr 9), (''Parent'', Ptr 8)],
      PdfIndirectObject 0 0 (Ptr 10),
      PdfObjectDictionary [(''Type'', Ptr 4), (''Parent'', Ptr 11)],
      PdfIndirectObject 0 0 (Ptr 12)]"

text \<open>A page (4, dictionary 3) whose parent (2) is an indirect object that holds an array.\<close>

definition exampleBadParent :: heap where
  "exampleBadParent =
     [PdfObjectName ''Page'',
      PdfObjectArray [],
      PdfIndirectObject 0 0 (Ptr 1),
      PdfObjectDictionary [(''Type'', Ptr 0), (''Parent'', Ptr 2)],
      PdfIndirectObject 0 0 (Ptr 3)]"


definition encryptLogging ::
  "PdfCrypt \<Rightarrow> heap \<Rightarrow> PdfObject \<Rightarrow> int \<Rightarrow> int \<Rightarrow> error + PdfCrypt \<times> heap" where
  "encryptLogging c h obj num gen = Inr (c\<lparr>EncryptedObjects := EncryptedObjects c @ [obj]\<rparr>, h)"

text \<open>A writer with one registered object, an indirect object that holds its catalog.\<close>

definition exampleOneObject :: PdfWriter where
  "exampleOneObject =
     writerWith 1 1 0 1 [Ptr 1] [PdfObjectDictionary [], PdfIndirectObject 0 0 (Ptr 0)]"

text \<open>
  A writer with two registered objects: an indirect object that holds its
  catalog, and a stream that a reader has left the number 5 and the
  generation 1.
\<close>

definition exampleTwoObjects :: PdfWriter where
  "exampleTwoObjects =
     writerWith 1 1 0 1 [Ptr 1, Ptr 2]
       [PdfObjectDictionary [], PdfIndirectObject 0 0 (Ptr 0), PdfObjectStream 5 1 0 []]"

text \<open>
  A page (13, dictionary 12) with two annotations (8 and 10) whose \<open>Parent\<close> is
  one and the same indirect object (6), which nothing else refers to; the page
  tree's root (3), the catalog (15, dictionary 14) and the information
  dictionary (17).
\<close>

definition exampleSharedParent :: heap where
  "exampleSharedParent =
     [PdfObjectArray [],
      PdfObjectInteger 0,
      PdfObjectDictionary [(''Kids'', Ptr 0), (''Count'', Ptr 1)],
      PdfIndirectObject 0 0 (Ptr 2),
      PdfObjectName ''Page'',
      PdfObjectDictionary [],
      PdfIndirectObject 0 0 (Ptr 5),
      PdfObjectDictionary [(''Parent'', Ptr 6)],
      PdfIndirectObject 0 0 (Ptr 7),
      PdfObjectDictionary [(''Parent'', Ptr 6)],
      PdfIndirectObject 0 0 (Ptr 9),
      PdfObjectArray [Ptr 8, Ptr 10],
      PdfObjectDictionary [(''Type'', Ptr 4), (''Annots'', Ptr 11)],
      PdfIndirectObject 0 0 (Ptr 12),
      PdfObjectDictionary [],
      PdfIndirectObject 0 0 (Ptr 14),
      PdfObjectDictionary [],
      PdfIndirectObject 0 0 (Ptr 16)]"

text \<open>An indirect object (3) whose dictionary has a reference as \<open>Parent\<close>, and a catalog (0).\<close>

definition exampleReferenceParent :: heap where
  "exampleReferenceParent =
     [PdfObjectDictionary [],
      PdfObjectReference 9 0,
      PdfObjectDictionary [(''Parent'', Ptr 1)],
      PdfIndirectObject 0 0 (Ptr 2)]"

section \<open>Properties of the inline image scanner\<close>

lemma IsWhiteSpace_simps [simp]:
  "IsWhiteSpace (CHR '' '')" "\<not> IsWhiteSpace (CHR ''a'')" "\<not> IsWhiteSpace (CHR ''b'')"
  "\<not> IsWhiteSpace (CHR ''E'')" "\<not> IsWhiteSpace (CHR ''I'')"
  by (simp_all add: IsWhiteSpace_def)

text \<open>
  A terminator the scanner walks past: in \<open>E EI\<close> after a blank, the blank that
  follows the first \<open>E\<close> is read in state 2, flushed as data, and the scanner
  falls to state 0, so the \<open>EI\<close> it introduces is data too and the input ends
  without an image.
\<close>

lemma scanInlineImage_misses_terminator:
  "parseInlineImageData IsWhiteSpace ''  E EI '' = Inl ReadError"
  by (simp add: parseInlineImageData_def)

text \<open>
  Claim C2 (the first \<open><whitespace>EI<whitespace>\<close> ends the image and the
  payload is exactly the bytes before it; in state 1 a further white-space byte
  adds nothing to the payload). The code differs: in state 1 a white-space byte
  flushes the candidate into the payload and \<open>skipBytes\<close> is not cleared, so a
  later flush writes the same bytes again. After \<open>ID\<close> and its one separating
  blank, the data \<open>a\<close>, two blanks, \<open>Eb\<close> and the terminator give a payload with
  four blanks where the input has two.
\<close>

theorem parseInlineImageData_repeats_whitespace:
  "parseInlineImageData IsWhiteSpace '' a  Eb EI '' = Inr (''a    Eb'', [])"
  by (simp add: parseInlineImageData_def)

section \<open>Example writers\<close>

lemma writerWith_simps [simp]:
  "root (writerWith r p c i objs h) = r"
  "pages (writerWith r p c i objs h) = p"
  "objects (writerWith r p c i objs h) = objs"
  "outlineTree (writerWith r p c i objs h) = None"
  "catalog (writerWith r p c i objs h) = c"
  "formFields (writerWith r p c i objs h) = []"
  "infoObj (writerWith r p c i objs h) = i"
  "crypter (writerWith r p c i objs h) = None"
  "encryptDict (writerWith r p c i objs h) = None"
  "encryptObj (writerWith r p c i objs h) = None"
  "ids (writerWith r p c i objs h) = None"
  "majorVersion (writerWith r p c i objs h) = 1"
  "minorVersion (writerWith r p c i objs h) = 3"
  "pendingObjects (writerWith r p c i objs h) = []"
  "acroForm (writerWith r p c i objs h) = None"
  "heap (writerWith r p c i objs h) = h"
  by (simp_all add: writerWith_def)

text \<open>The definitions to unfold when a concrete store is evaluated.\<close>

lemmas eval_defs = heapGet_def deref_def dictOf_def dictLookup_def dictIndex_def dictSet_def
  asIndirectObject_def asStream_def asDictionary_def asArray_def arrayOf_def isNull_def
  isReference_def asName_def asString_def asInteger_def alloc_def
  hasObject_def addObject_def indirectBody_def setIndirectBody_def inheritedFields_def

lemma length_dictSet [simp]: "length (dictSet h d k v) = length h"
  by (simp add: dictSet_def split: option.splits cell.splits)

section \<open>The list of objects only grows\<close>


lemma addObjects_rel:
  assumes rf: "\<And>w. P w None w"
    and tr: "\<And>a b r c. P a None b \<Longrightarrow> P b r c \<Longrightarrow> P a r c"
    and add: "\<And>w obj. asIndirectObject (heap w) obj \<noteq> None \<or> asStream (heap w) obj \<noteq> None
                \<Longrightarrow> P w None (snd (addObject w obj))"
    and pend: "\<And>w v d. P w None (w\<lparr>pendingObjects := mapSet (pendingObjects w) v d\<rparr>)"
    and err: "\<And>w. P w (Some ArrayIsNil) w" "\<And>w. P w (Some ReferenceNotAllowed) w"
      "\<And>w. P w (Some ParentIsReference) w"
  shows "addObjects n w obj = Some (r, w') \<Longrightarrow> P w r w'"
    and "addObjectsDict n w d kvs = Some (r, w') \<Longrightarrow> P w r w'"
    and "addObjectsArray n w vs = Some (r, w') \<Longrightarrow> P w r w'"
proof (induction n w obj and n w d kvs and n w vs arbitrary: r w' and r w' and r w'
       rule: addObjects_addObjectsDict_addObjectsArray.induct)
  case (1 this obj)
  then show ?case by simp
next
  case (2 n this obj)
  obtain b this' where a: "addObject this obj = (b, this')" by (cases "addObject this obj")
  then have t: "this' = snd (addObject this obj)" by simp
  have step: "P this None this'"
    if "asIndirectObject (heap this) obj \<noteq> None \<or> asStream (heap this) obj \<noteq> None"
    unfolding t using that by (rule add)
  show ?case
  proof (cases "asIndirectObject (heap this) obj")
    case (Some p)
    obtain io body where p: "p = (io, body)" by (cases p)
    from Some have step: "P this None this'" by (simp add: step)
    show ?thesis
    proof (cases b)
      case True
      then have bt: "b = True" by simp
      from True "2.prems" Some p a have "addObjects n this' body = Some (r, w')" by simp
      from "2.IH"(4) [OF Some p [symmetric] a [symmetric] bt this]
      show ?thesis using step by (rule tr [rotated])
    next
      case False
      with "2.prems" Some p a step show ?thesis by simp
    qed
  next
    case None
    note n1 = None
    show ?thesis
    proof (cases "asStream (heap this) obj")
      case (Some p)
      obtain so d where p: "p = (so, d)" by (cases p)
      from Some have step: "P this None this'" by (simp add: step)
      show ?thesis
      proof (cases b)
        case True
        then have bt: "b = True" by simp
        from True "2.prems" n1 Some p a have "addObjects n this' (Ptr d) = Some (r, w')" by simp
        from "2.IH"(3) [OF n1 Some p [symmetric] a [symmetric] bt this]
        show ?thesis using step by (rule tr [rotated])
      next
        case False
        with "2.prems" n1 Some p a step show ?thesis by simp
      qed
    next
      case None
      note n2 = None
      show ?thesis
      proof (cases "asDictionary (heap this) obj")
        case (Some dict)
        with "2.prems" n1 n2 "2.IH"(2) [OF n1 n2 Some] show ?thesis by simp
      next
        case None
        note n3 = None
        show ?thesis
        proof (cases "asArray (heap this) obj")
          case None
          with "2.prems" n1 n2 n3 rf err show ?thesis by (auto split: if_splits)
        next
          case (Some a)
          note sa = Some
          show ?thesis
          proof (cases a)
            case None
            with "2.prems" n1 n2 n3 sa err show ?thesis by auto
          next
            case (Some arr)
            with "2.prems" n1 n2 n3 sa "2.IH"(1) [OF n1 n2 n3 sa Some]
            show ?thesis by simp
          qed
        qed
      qed
    qed
  qed
next
  case (3 n this dict)
  then show ?case using rf by simp
next
  case (4 n this dict k v kvs)
  show ?case
  proof (cases "k \<noteq> ''Parent''")
    case True
    with "4.prems" obtain r1 w1 where s: "addObjects n this v = Some (r1, w1)"
      by (auto split: option.splits)
    from "4.IH"(1) [OF True s] have g1: "P this r1 w1" .
    show ?thesis
    proof (cases r1)
      case None
      with "4.prems" True s have "addObjectsDict n w1 dict kvs = Some (r, w')" by simp
      from "4.IH"(2) [OF True s refl None this]
      show ?thesis using g1 [unfolded None] by (rule tr [rotated])
    next
      case (Some e)
      with "4.prems" True s g1 show ?thesis by auto
    qed
  next
    case False
    note k = False
    show ?thesis
    proof (cases "isNull (heap this) v")
      case True
      with "4.prems" k "4.IH"(3) [OF k True] show ?thesis by simp
    next
      case False
      define this' where "this' = (if \<not> hasObject this v
            then this\<lparr>pendingObjects := mapSet (pendingObjects this) v dict\<rparr> else this)"
      have g: "P this None this'"
        by (simp add: this'_def rf pend)
      show ?thesis
      proof (cases "isReference (heap this') v")
        case True
        with "4.prems" k False have "r = Some ParentIsReference" "w' = this'"
          by (simp_all add: this'_def Let_def)
        with tr [OF g err(3)] show ?thesis by simp
      next
        case r: False
        with "4.prems" k False have "addObjectsDict n this' dict kvs = Some (r, w')"
          by (simp add: this'_def Let_def)
        from "4.IH"(4) [OF k False this'_def r this] 
        show ?thesis using g by (rule tr [rotated])
      qed
    qed
  qed
next
  case (5 n this)
  then show ?case using rf by simp
next
  case (6 n this v vs)
  from "6.prems" obtain r1 w1 where s: "addObjects n this v = Some (r1, w1)"
    by (auto split: option.splits)
  from "6.IH"(1) [OF s] have g1: "P this r1 w1" .
  show ?case
  proof (cases r1)
    case None
    with "6.prems" s have "addObjectsArray n w1 vs = Some (r, w')" by simp
    from "6.IH"(2) [OF s refl None this]
    show ?thesis using g1 [unfolded None] by (rule tr [rotated])
  next
    case (Some e)
    with "6.prems" s g1 show ?thesis by auto
  qed
qed


lemma grows_refl [simp]: "grows w w"
  by (simp add: grows_def)

lemma grows_trans: "grows w w' \<Longrightarrow> grows w' w'' \<Longrightarrow> grows w w''"
  by (auto simp: grows_def)

lemma grows_same_objects: "objects w' = objects w \<Longrightarrow> grows w w'"
  by (simp add: grows_def)

lemma addObject_grows: "grows w (snd (addObject w obj))"
  by (simp add: grows_def addObject_def hasObject_def)

lemma addObject_heap [simp]: "heap (snd (addObject w obj)) = heap w"
  by (simp add: addObject_def)

lemma addObjects_grows:
  assumes "addObjects n w obj = Some (r, w')"
  shows "grows w w' \<and> heap w' = heap w"
  by (rule addObjects_rel(1) [where P = "\<lambda>w r w'. grows w w' \<and> heap w' = heap w",
        OF _ _ _ _ _ _ _ assms])
     (auto intro: grows_trans addObject_grows grows_same_objects)

lemma addObjects_errors:
  assumes "addObjects n w obj = Some (r, w')"
  shows "r \<in> {None, Some ArrayIsNil, Some ReferenceNotAllowed, Some ParentIsReference}"
  by (rule addObjects_rel(1) [where P = "\<lambda>w r w'. r \<in> {None, Some ArrayIsNil,
        Some ReferenceNotAllowed, Some ParentIsReference}", OF _ _ _ _ _ _ _ assms])
     auto

lemma grows_update [simp]:
  "grows (w\<lparr>heap := h\<rparr>) w' = grows w w'"
  "grows w (w'\<lparr>heap := h\<rparr>) = grows w w'"
  "grows w (w'\<lparr>formFields := fs\<rparr>) = grows w w'"
  "grows w (w'\<lparr>crypter := c\<rparr>) = grows w w'"
  "grows w (w'\<lparr>encryptDict := ed\<rparr>) = grows w w'"
  "grows w (w'\<lparr>encryptObj := eo\<rparr>) = grows w w'"
  "grows w (w'\<lparr>ids := i\<rparr>) = grows w w'"
  "grows (w\<lparr>formFields := fs\<rparr>) w' = grows w w'"
  "grows (w\<lparr>crypter := c\<rparr>) w' = grows w w'"
  "grows (w\<lparr>encryptDict := ed\<rparr>) w' = grows w w'"
  "grows (w\<lparr>encryptObj := eo\<rparr>) w' = grows w w'"
  "grows (w\<lparr>ids := i\<rparr>) w' = grows w w'"
  by (simp_all add: grows_def)

lemma grows_after_addObject: "grows (snd (addObject w obj)) w' \<Longrightarrow> grows w w'"
  by (rule grows_trans [OF addObject_grows])

lemma SetOCProperties_grows:
  "SetOCProperties fuel w oc = Some (r, w') \<Longrightarrow> grows w w'"
  by (auto simp: SetOCProperties_def Let_def split: if_splits option.splits
      dest!: addObjects_grows)

lemma addPageToPages_grows:
  "addPageToPages fuel w pageObj pDict = Some (r, w') \<Longrightarrow> grows w w'"
  unfolding addPageToPages_def Let_def
  by (auto split: option.splits prod.splits dest!: addObjects_grows grows_after_addObject)

lemma AddPage_grows:
  "AddPage fuel w obj = Some (r, w') \<Longrightarrow> grows w w'"
  unfolding AddPage_def
  by (auto split: option.splits prod.splits if_splits dest!: addPageToPages_grows)

lemma addFormsFields_grows:
  "addFormsFields fuel w fs = Some (r, w') \<Longrightarrow> grows w w'"
proof (induction fs arbitrary: w)
  case Nil
  then show ?case by simp
next
  case (Cons f fs)
  from Cons.prems show ?case
    by (auto simp: Let_def split: option.splits prod.splits if_splits sum.splits
        dest!: Cons.IH grows_after_addObject)
qed

lemma AddForms_grows:
  "AddForms fuel w forms = Some (r, w') \<Longrightarrow> grows w w'"
  unfolding AddForms_def Let_def
  by (auto split: option.splits dest!: addFormsFields_grows)

lemma objects_addObject:
  "objects (snd (addObject w obj)) = (if obj \<in> set (objects w) then objects w else objects w @ [obj])"
  by (simp add: addObject_def hasObject_def)

lemma objectNumber_asIndirectObject:
  "asIndirectObject h obj = Some x \<Longrightarrow> \<exists>n g. objectNumber h obj = Some (n, g)"
  "asStream h obj = Some y \<Longrightarrow> \<exists>n g. objectNumber h obj = Some (n, g)"
  by (auto simp: asIndirectObject_def asStream_def objectNumber_def deref_def cellNumber_def
      split: PdfObject.splits option.splits cell.splits)

lemma addObjects_allNumbered:
  assumes "addObjects n w obj = Some (r, w')"
  shows "allNumbered (heap w) (objects w) \<longrightarrow> allNumbered (heap w') (objects w')"
proof -
  have "heap w' = heap w \<and> (allNumbered (heap w) (objects w) \<longrightarrow> allNumbered (heap w') (objects w'))"
    by (rule addObjects_rel(1) [where P = "\<lambda>w r w'. heap w' = heap w \<and>
          (allNumbered (heap w) (objects w) \<longrightarrow> allNumbered (heap w') (objects w'))",
          OF _ _ _ _ _ _ _ assms])
       (auto simp: allNumbered_def objects_addObject dest: objectNumber_asIndirectObject)+
  then show ?thesis by auto
qed

lemma Encrypt_grows:
  "Encrypt alg3 alg5 hash0 hash1 w userPass ownerPass options = (r, w') \<Longrightarrow> grows w w'"
  unfolding Encrypt_def Let_def
  by (auto simp: grows_def objects_addObject split: option.splits prod.splits sum.splits)


lemma objects_checkPending [simp]: "objects (checkPending w ps) = objects w"
  by (induction ps arbitrary: w) (auto simp: Let_def)

lemma objects_updateObjectNumbers [simp]: "objects (updateObjectNumbers w) = objects w"
  by (simp add: updateObjectNumbers_def)

lemma objects_encryptObject:
  "encryptObject encrypt w obj idx = Inr w1 \<Longrightarrow> objects w1 = objects w"
  by (auto simp: encryptObject_def split: option.splits if_splits sum.splits)

lemma objects_writeObjects:
  "writeObjects dws encrypt w idx objs offsets ws = (r, w', offsets', ws') \<Longrightarrow> objects w' = objects w"
proof (induction objs arbitrary: w idx offsets ws)
  case Nil
  then show ?case by simp
next
  case (Cons obj objs)
  show ?case
  proof (cases "encryptObject encrypt w obj idx")
    case (Inl err)
    with Cons.prems show ?thesis by (simp add: Let_def)
  next
    case (Inr w1)
    from objects_encryptObject [OF Inr] have o: "objects w1 = objects w" .
    show ?thesis
    proof (cases "writeObject dws (heap w1) (int idx + 1) obj")
      case (Inl err)
      with Cons.prems Inr o show ?thesis by (auto simp: Let_def)
    next
      case tx: (Inr tx)
      with Cons.prems Inr have
        "writeObjects dws encrypt w1 (Suc idx) objs (offsets @ [int (length ws)]) (ws @ tx)
           = (r, w', offsets', ws')"
        by (simp add: Let_def)
      from Cons.IH [OF this] o show ?thesis by simp
    qed
  qed
qed

lemma objects_stampVersion [simp]: "objects (stampVersion w) = objects w"
  by (simp add: stampVersion_def Let_def split: prod.splits)

lemma objects_writeTail: "writeTail dws w offsets ws = (w', ws') \<Longrightarrow> objects w' = objects w"
  by (auto simp: writeTail_def Let_def split: prod.splits)

lemma objects_writeBody:
  "writeBody dws encrypt w ws = (r, w', ws') \<Longrightarrow> objects w' = objects w"
  unfolding writeBody_def Let_def
  by (auto split: prod.splits option.splits dest!: objects_writeObjects objects_writeTail)

lemma attachToCatalog_grows:
  "attachToCatalog fuel w key f = Some (r, w') \<Longrightarrow> grows w w'"
  unfolding attachToCatalog_def Let_def
  by (auto split: prod.splits dest!: addObjects_grows)

lemma Write_grows:
  "Write dws encrypt fuel w ws = Some (r, w', ws') \<Longrightarrow> grows w w'"
  unfolding Write_def attachOutlinesAndForms_def
  by (auto split: option.splits prod.splits
      dest!: attachToCatalog_grows objects_writeBody intro: grows_trans grows_same_objects)

lemma step_grows: "step w w' \<Longrightarrow> grows w w'"
proof (induction rule: step.induct)
  case (step_addObject w obj)
  show ?case by (rule addObject_grows)
next
  case (step_addObjects fuel w obj r w')
  then show ?case by (simp add: addObjects_grows)
next
  case (step_SetOCProperties fuel w obj r w')
  then show ?case by (rule SetOCProperties_grows)
next
  case (step_AddPage fuel w obj r w')
  then show ?case by (rule AddPage_grows)
next
  case (step_AddForms fuel w forms r w')
  then show ?case by (rule AddForms_grows)
next
  case (step_Encrypt alg3 alg5 hash0 hash1 w userPass ownerPass options r w')
  then show ?case by (rule Encrypt_grows)
next
  case (step_Write dws encrypt fuel w ws r w' ws')
  then show ?case by (rule Write_grows)
next
  case (step_SetVersion w major minor)
  show ?case by (simp add: grows_def SetVersion_def)
next
  case (step_AddOutlineTree w tree)
  show ?case by (simp add: grows_def AddOutlineTree_def)
next
  case (step_AddForms2 w form)
  show ?case by (simp add: grows_def AddForms2_def)
next
  case (step_program w h)
  show ?case by simp
qed


lemma objects_NewPdfWriter:
  "objects (NewPdfWriter h pdfProducer pdfCreator version)
     = [Ptr (length h + 3), Ptr (length h + 6), Ptr (length h + 11)]"
  by (simp add: NewPdfWriter_def alloc_def MakeString_def MakeName_def MakeInteger_def
      Let_def objects_addObject)

lemma reachable_distinct: "reachable w \<Longrightarrow> distinct (objects w)"
proof (induction rule: reachable.induct)
  case (reachable_new h pdfProducer pdfCreator version)
  show ?case by (simp add: objects_NewPdfWriter)
next
  case (reachable_step w w')
  then show ?case using step_grows [of w w'] by (simp add: grows_def)
qed

text \<open>
  Claim C6. In every writer that comes from \<open>NewPdfWriter\<close> by calls of its
  methods (with the program changing objects in between), the list of objects
  holds no object twice. Every step, through whichever method, leaves the
  objects registered so far where they are and adds new ones at the end, and
  \<open>addObject\<close> adds nothing for an object already there and one entry at the
  end for a new one.
\<close>

theorem graph_holds_no_object_twice:
  assumes "reachable w"
  shows "distinct (objects w)
    \<and> (\<forall>w'. step w w' \<longrightarrow> prefix (objects w) (objects w') \<and> distinct (objects w'))
    \<and> (\<forall>obj. objects (snd (addObject w obj))
                = (if obj \<in> set (objects w) then objects w else objects w @ [obj]))"
proof -
  have d: "distinct (objects w)" using assms by (rule reachable_distinct)
  moreover have "prefix (objects w) (objects w') \<and> distinct (objects w')" if "step w w'" for w'
    using step_grows [OF that] d by (simp add: grows_def)
  ultimately show ?thesis by (simp add: objects_addObject)
qed

theorem graph_holds_no_object_twice_witness:
  "distinct (objects (NewPdfWriter [] [] [] []))
   \<and> objects (snd (addObject (NewPdfWriter [] [] [] []) (Ptr 6))) = [Ptr 3, Ptr 6, Ptr 11]
   \<and> objects (snd (addObject (NewPdfWriter [] [] [] []) (Ptr 12))) = [Ptr 3, Ptr 6, Ptr 11, Ptr 12]"
  using graph_holds_no_object_twice [OF reachable_new, of "[]" "[]" "[]" "[]"]
  by (simp add: objects_NewPdfWriter)

section \<open>Object numbers\<close>

lemma objectNumber_setObjectNumber:
  "objectNumber (setObjectNumber h obj num) obj' =
     (if obj' = obj \<and> objectNumber h obj \<noteq> None then Some (num, 0) else objectNumber h obj')"
  by (cases obj; cases obj')
     (auto simp: objectNumber_def setObjectNumber_def deref_def heapGet_def cellNumber_def
           nth_list_update split: option.splits cell.splits)

lemma objectNumber_updateObjectNumbersFrom_other:
  "obj \<notin> set objs \<Longrightarrow> objectNumber (updateObjectNumbersFrom h idx objs) obj = objectNumber h obj"
  by (induction objs arbitrary: h idx) (auto simp: objectNumber_setObjectNumber)

lemma objectNumber_updateObjectNumbersFrom:
  "distinct objs \<Longrightarrow> i < length objs \<Longrightarrow> objectNumber h (objs ! i) \<noteq> None \<Longrightarrow>
   objectNumber (updateObjectNumbersFrom h idx objs) (objs ! i) = Some (int (idx + i) + 1, 0)"
proof (induction objs arbitrary: h idx i)
  case Nil
  then show ?case by simp
next
  case (Cons obj objs)
  show ?case
  proof (cases i)
    case 0
    with Cons.prems show ?thesis
      by (simp add: objectNumber_updateObjectNumbersFrom_other objectNumber_setObjectNumber)
  next
    case (Suc j)
    with Cons.prems have "obj \<noteq> objs ! j" by auto
    with Suc Cons.prems Cons.IH [of j "setObjectNumber h obj (int idx + 1)" "Suc idx"]
    show ?thesis by (simp add: objectNumber_setObjectNumber)
  qed
qed

lemma writeObject_marker:
  "writeObject dws h num obj = Inr tx \<Longrightarrow> objectNumber h obj \<noteq> None \<Longrightarrow>
   \<exists>rest. tx = showInt num @ '' 0 obj'' @ LF @ rest"
  by (auto simp: writeObject_def objectNumber_def cellNumber_def
      split: option.splits cell.splits if_splits)

lemma keepsNumbers_refl [simp]: "keepsNumbers h h"
  by (simp add: keepsNumbers_def)

lemma keepsNumbers_trans: "keepsNumbers h h' \<Longrightarrow> keepsNumbers h' h'' \<Longrightarrow> keepsNumbers h h''"
  by (auto simp: keepsNumbers_def)

lemma keepsNumbers_update:
  "(a < length h \<Longrightarrow> cellNumber c = cellNumber (h ! a)) \<Longrightarrow> keepsNumbers h (h[a := c])"
  by (cases "a < length h") (auto simp: keepsNumbers_def nth_list_update)

lemma keepsNumbers_dictSet [simp]: "keepsNumbers h (dictSet h d k v)"
  by (auto simp: dictSet_def heapGet_def cellNumber_def intro!: keepsNumbers_update
      split: option.splits cell.splits if_splits)

lemma keepsNumbers_alloc [simp]: "keepsNumbers h (snd (alloc h c))"
  by (simp add: keepsNumbers_def alloc_def nth_append)

lemma keepsNumbers_setIndirectBody [simp]: "keepsNumbers h (setIndirectBody h a body)"
  by (auto simp: setIndirectBody_def heapGet_def cellNumber_def intro!: keepsNumbers_update
      split: option.splits cell.splits if_splits)

lemma keepsNumbers_after:
  "keepsNumbers h' h'' \<Longrightarrow> keepsNumbers h h' \<Longrightarrow> keepsNumbers h h''"
  by (rule keepsNumbers_trans)

lemma keepsNumbers_inheritFrom [simp]: "keepsNumbers h (inheritFrom h pDict parentDict fs)"
proof (induction fs arbitrary: h)
  case Nil
  show ?case by simp
next
  case (Cons f fs)
  show ?case
    by (auto split: option.splits
        intro: Cons.IH keepsNumbers_trans [OF keepsNumbers_dictSet Cons.IH])
qed

lemma keepsNumbers_inheritLoop:
  "inheritLoop fuel h pDict p = Some (r, h') \<Longrightarrow> keepsNumbers h h'"
proof (induction fuel arbitrary: h p)
  case 0
  then show ?case by (auto split: option.splits prod.splits)
next
  case (Suc n)
  from Suc.prems show ?case
    by (auto simp: Let_def split: option.splits prod.splits dest!: Suc.IH
        intro: keepsNumbers_trans [OF keepsNumbers_inheritFrom])
qed

lemma keepsNumbers_array_update:
  "asArray h x = Some (Some a) \<Longrightarrow> keepsNumbers h (h[a := PdfObjectArray xs])"
  by (auto simp: asArray_def heapGet_def cellNumber_def intro!: keepsNumbers_update
      split: PdfObject.splits option.splits cell.splits if_splits)

lemma keepsNumbers_integer_update:
  "asInteger h x = Some (a, i) \<Longrightarrow> keepsNumbers h (h[a := PdfObjectInteger j])"
  by (auto simp: asInteger_def heapGet_def cellNumber_def intro!: keepsNumbers_update
      split: PdfObject.splits option.splits cell.splits if_splits)

lemma keepsNumbers_addPageToPages:
  assumes "addPageToPages fuel w pageObj pDict = Some (r, w')"
  shows "keepsNumbers (heap w) (heap w')"
proof -
  define h1 where "h1 = setIndirectBody (dictSet (heap w) pDict ''Parent'' (Ptr (pages w))) pageObj (Ptr pDict)"
  have k1: "keepsNumbers (heap w) h1"
    unfolding h1_def by (rule keepsNumbers_trans [OF keepsNumbers_dictSet keepsNumbers_setIndirectBody])
  from assms show ?thesis
    unfolding addPageToPages_def Let_def h1_def [symmetric]
    by (auto split: option.splits prod.splits dest!: addObjects_grows
        intro: k1 keepsNumbers_trans [OF k1 keepsNumbers_array_update]
          keepsNumbers_trans [OF keepsNumbers_trans [OF k1 keepsNumbers_array_update]
             keepsNumbers_integer_update])
qed

lemma keepsNumbers_AddPage:
  "AddPage fuel w obj = Some (r, w') \<Longrightarrow> keepsNumbers (heap w) (heap w')"
  unfolding AddPage_def
  by (auto split: option.splits prod.splits if_splits
      dest!: keepsNumbers_addPageToPages keepsNumbers_inheritLoop intro: keepsNumbers_trans)

lemma heap_addFormsFields:
  "addFormsFields fuel w fs = Some (r, w') \<Longrightarrow> heap w' = heap w"
proof (induction fs arbitrary: w)
  case Nil
  then show ?case by simp
next
  case (Cons f fs)
  from Cons.prems show ?case
    by (auto simp: Let_def split: option.splits prod.splits if_splits sum.splits dest!: Cons.IH)
qed

lemma keepsNumbers_AddForms:
  "AddForms fuel w forms = Some (r, w') \<Longrightarrow> keepsNumbers (heap w) (heap w')"
  unfolding AddForms_def Let_def
  by (auto split: option.splits dest!: heap_addFormsFields)

lemma keepsNumbers_SetOCProperties:
  "SetOCProperties fuel w oc = Some (r, w') \<Longrightarrow> keepsNumbers (heap w) (heap w')"
  by (auto simp: SetOCProperties_def Let_def split: if_splits option.splits
      dest!: addObjects_grows)


lemma keepsNumbers_then_dictSet: "keepsNumbers h0 h1 \<Longrightarrow> keepsNumbers h0 (dictSet h1 d k v)"
  by (rule keepsNumbers_trans [OF _ keepsNumbers_dictSet])

lemma keepsNumbers_then_append: "keepsNumbers h0 h1 \<Longrightarrow> keepsNumbers h0 (h1 @ cs)"
  by (simp add: keepsNumbers_def nth_append)

lemma keepsNumbers_Encrypt:
  assumes "Encrypt alg3 alg5 hash0 hash1 w userPass ownerPass options = (r, w')"
  shows "keepsNumbers (heap w) (heap w')"
  using assms
  by (auto simp: Encrypt_def Let_def alloc_def MakeName_def MakeInteger_def
      split: sum.splits prod.splits
      intro!: keepsNumbers_then_dictSet keepsNumbers_then_append)

section \<open>AddPage: the ancestor walk\<close>

lemma sameShape_refl [simp]: "sameShape h h"
  by (simp add: sameShape_def)

lemma sameShape_trans: "sameShape h h' \<Longrightarrow> sameShape h' h'' \<Longrightarrow> sameShape h h''"
  by (simp add: sameShape_def)

lemma map_of_mapSet: "map_of (mapSet kvs k v) = (map_of kvs)(k \<mapsto> v)"
  by (induction kvs) auto

lemma dictLookup_dictSet:
  "dictLookup (dictSet h d k v) d' k' =
     (if d' = d \<and> k' = k \<and> asDictionary h (Ptr d) \<noteq> None then Some v else dictLookup h d' k')"
  by (auto simp: dictLookup_def dictSet_def dictOf_def heapGet_def asDictionary_def map_of_mapSet
      nth_list_update split: option.splits cell.splits)

lemma asIndirectObject_dictSet [simp]:
  "asIndirectObject (dictSet h d k v) obj = asIndirectObject h obj"
  by (auto simp: dictSet_def asIndirectObject_def heapGet_def nth_list_update
      split: option.splits cell.splits PdfObject.splits)

lemma asDictionary_dictSet [simp]:
  "asDictionary (dictSet h d k v) obj = asDictionary h obj"
  by (auto simp: dictSet_def asDictionary_def heapGet_def nth_list_update
      split: option.splits cell.splits PdfObject.splits)

lemma sameShape_dictSet: "k \<noteq> ''Parent'' \<Longrightarrow> sameShape h (dictSet h d k v)"
  by (simp add: sameShape_def dictIndex_def dictLookup_dictSet)

lemma parentChain_sameShape:
  "sameShape h h' \<Longrightarrow> parentChain n h' p = parentChain n h p"
  by (induction n arbitrary: p) (simp_all add: sameShape_def cong: option.case_cong prod.case_cong)


lemma inheritFrom_sameShape:
  "''Parent'' \<notin> set fs \<Longrightarrow> sameShape h (inheritFrom h pDict parentDict fs)"
proof (induction fs arbitrary: h)
  case Nil
  show ?case by simp
next
  case (Cons f fs)
  then have f: "f \<noteq> ''Parent''" and fs: "''Parent'' \<notin> set fs" by auto
  show ?case
  proof (cases "dictLookup h pDict f \<noteq> None \<or> dictLookup h parentDict f = None")
    case True
    then show ?thesis using Cons.IH [OF fs, of h] by (auto split: option.splits)
  next
    case False
    then obtain obj where "dictLookup h parentDict f = Some obj" "dictLookup h pDict f = None"
      by auto
    then show ?thesis
      using sameShape_trans [OF sameShape_dictSet [OF f] Cons.IH [OF fs], of h pDict obj]
      by simp
  qed
qed

lemma dictLookup_inheritFrom_other:
  "d \<noteq> pDict \<Longrightarrow> dictLookup (inheritFrom h pDict parentDict fs) d k = dictLookup h d k"
  by (induction fs arbitrary: h) (auto simp: dictLookup_dictSet split: option.splits)

lemma dictLookup_inheritFrom_notin:
  "k \<notin> set fs \<Longrightarrow> dictLookup (inheritFrom h pDict parentDict fs) d k = dictLookup h d k"
  by (induction fs arbitrary: h) (auto simp: dictLookup_dictSet split: option.splits)

lemma dictLookup_inheritFrom:
  assumes "asDictionary h (Ptr pDict) \<noteq> None" and "distinct fs" and "f \<in> set fs"
  shows "dictLookup (inheritFrom h pDict parentDict fs) pDict f =
         (case dictLookup h pDict f of Some v \<Rightarrow> Some v | None \<Rightarrow> dictLookup h parentDict f)"
  using assms
proof (induction fs arbitrary: h)
  case Nil
  then show ?case by simp
next
  case (Cons g fs)
  show ?case
  proof (cases "f = g")
    case True
    with Cons.prems show ?thesis
      by (auto simp: dictLookup_inheritFrom_notin dictLookup_dictSet split: option.splits)
  next
    case False
    with Cons.prems have f: "f \<in> set fs" and d: "distinct fs" by auto
    show ?thesis
    proof (cases "dictLookup h pDict g \<noteq> None \<or> dictLookup h parentDict g = None")
      case True
      then show ?thesis using Cons.IH [OF Cons.prems(1) d f] by (auto split: option.splits)
    next
      case n: False
      then obtain obj where o: "dictLookup h parentDict g = Some obj" and p: "dictLookup h pDict g = None"
        by auto
      have "asDictionary (dictSet h pDict g obj) (Ptr pDict) \<noteq> None" using Cons.prems(1) by simp
      from Cons.IH [OF this d f] o p False show ?thesis
        by (auto simp: dictLookup_dictSet split: option.splits)
    qed
  qed
qed


lemma nearest_cong:
  "(\<And>d. d \<in> set ds \<Longrightarrow> dictLookup h' d f = dictLookup h d f) \<Longrightarrow> nearest h' ds f = nearest h ds f"
  by (induction ds) (auto split: option.splits)

lemma inheritedFields_facts [simp]:
  "distinct inheritedFields" "''Parent'' \<notin> set inheritedFields"
  by (simp_all add: inheritedFields_def)

lemma effective_step:
  assumes pd: "asDictionary h (Ptr pDict) \<noteq> None" and f: "f \<in> set inheritedFields"
  shows "effective (inheritFrom h pDict d inheritedFields) pDict ds f = effective h pDict (d # ds) f"
proof -
  let ?h1 = "inheritFrom h pDict d inheritedFields"
  have l: "dictLookup ?h1 pDict f =
         (case dictLookup h pDict f of Some v \<Rightarrow> Some v | None \<Rightarrow> dictLookup h d f)"
    by (rule dictLookup_inheritFrom [OF pd _ f]) simp
  show ?thesis
  proof (cases "dictLookup ?h1 pDict f")
    case (Some v)
    with l show ?thesis by (auto simp: effective_def split: option.splits)
  next
    case None
    with l have n: "dictLookup h pDict f = None" "dictLookup h d f = None"
      by (auto split: option.splits)
    have "nearest ?h1 ds f = nearest h ds f"
    proof (rule nearest_cong)
      fix d' assume "d' \<in> set ds"
      show "dictLookup ?h1 d' f = dictLookup h d' f"
        using None n dictLookup_inheritFrom_other [of d' pDict h d inheritedFields f]
        by (cases "d' = pDict") auto
    qed
    with None n show ?thesis by (simp add: effective_def)
  qed
qed

lemma effective_Nil [simp]: "effective h pDict [] f = dictLookup h pDict f"
  by (simp add: effective_def split: option.splits)

lemma asDictionary_sameShape: "sameShape h h' \<Longrightarrow> asDictionary h' obj = asDictionary h obj"
  by (simp add: sameShape_def)

lemma inheritLoop_effective:
  assumes "asDictionary h (Ptr pDict) \<noteq> None" and "parentChain n h p = Some (True, ds)"
  shows "\<exists>h'. inheritLoop n h pDict p = Some (None, h') \<and> sameShape h h'
           \<and> (\<forall>f \<in> set inheritedFields. dictLookup h' pDict f = effective h pDict ds f)"
  using assms
proof (induction n arbitrary: h p ds)
  case 0
  then show ?case by (auto split: option.splits prod.splits)
next
  case (Suc n)
  show ?case
  proof (cases "asIndirectObject h p")
    case None
    with Suc.prems show ?thesis by auto
  next
    case (Some a)
    obtain parent body where a: "a = (parent, body)" by (cases a)
    from Suc.prems(2) Some a obtain d ds' where
      d: "asDictionary h body = Some d" and
      c: "parentChain n h (dictIndex h d ''Parent'') = Some (True, ds')" and
      ds: "ds = d # ds'"
      by (auto split: option.splits prod.splits)
    let ?h1 = "inheritFrom h pDict d inheritedFields"
    have sh: "sameShape h ?h1" by (rule inheritFrom_sameShape) simp
    then have p1: "asDictionary ?h1 (Ptr pDict) \<noteq> None"
      using Suc.prems(1) by (simp add: asDictionary_sameShape)
    have "dictIndex ?h1 d ''Parent'' = dictIndex h d ''Parent''"
      using sh by (simp add: sameShape_def)
    then have c1: "parentChain n ?h1 (dictIndex ?h1 d ''Parent'') = Some (True, ds')"
      using c parentChain_sameShape [OF sh] by simp
    from Suc.IH [OF p1 c1] obtain h' where
      l: "inheritLoop n ?h1 pDict (dictIndex ?h1 d ''Parent'') = Some (None, h')" and
      s: "sameShape ?h1 h'" and
      e: "\<forall>f \<in> set inheritedFields. dictLookup h' pDict f = effective ?h1 pDict ds' f"
      by blast
    have "inheritLoop (Suc n) h pDict p = Some (None, h')"
      using Some a d l by (simp add: Let_def)
    moreover have "sameShape h h'" using sh s by (rule sameShape_trans)
    moreover have "\<forall>f \<in> set inheritedFields. dictLookup h' pDict f = effective h pDict ds f"
      using e effective_step [OF Suc.prems(1)] ds by simp
    ultimately show ?thesis by blast
  qed
qed

lemma inheritLoop_invalid:
  assumes "parentChain n h p = Some (False, ds)"
  shows "\<exists>h'. inheritLoop n h pDict p = Some (Some InvalidParent, h')"
  using assms
proof (induction n arbitrary: h p ds)
  case 0
  then show ?case by (auto split: option.splits prod.splits)
next
  case (Suc n)
  show ?case
  proof (cases "asIndirectObject h p")
    case None
    with Suc.prems show ?thesis by auto
  next
    case (Some a)
    obtain parent body where a: "a = (parent, body)" by (cases a)
    show ?thesis
    proof (cases "asDictionary h body")
      case None
      with Some a show ?thesis by simp
    next
      case d: (Some d)
      from Suc.prems Some a d obtain ds' where
        c: "parentChain n h (dictIndex h d ''Parent'') = Some (False, ds')"
        by (auto split: option.splits prod.splits)
      let ?h1 = "inheritFrom h pDict d inheritedFields"
      have sh: "sameShape h ?h1" by (rule inheritFrom_sameShape) simp
      have "dictIndex ?h1 d ''Parent'' = dictIndex h d ''Parent''"
        using sh by (simp add: sameShape_def)
      then have c1: "parentChain n ?h1 (dictIndex ?h1 d ''Parent'') = Some (False, ds')"
        using c parentChain_sameShape [OF sh] by simp
      from Suc.IH [OF c1] Some a d show ?thesis by (simp add: Let_def)
    qed
  qed
qed


lemma dictLookup_update_nondict:
  assumes "a < length h \<Longrightarrow> (\<forall>kvs. h ! a \<noteq> PdfObjectDictionary kvs)"
    and "\<forall>kvs. c \<noteq> PdfObjectDictionary kvs"
  shows "dictLookup (h[a := c]) d k = dictLookup h d k"
  using assms
  by (cases "a < length h"; cases "d = a")
     (auto simp: dictLookup_def dictOf_def heapGet_def split: option.splits cell.splits)

lemma dictLookup_setIndirectBody [simp]:
  "dictLookup (setIndirectBody h a body) d k = dictLookup h d k"
  by (auto simp: setIndirectBody_def heapGet_def intro!: dictLookup_update_nondict
      split: option.splits cell.splits if_splits)




lemma addPageToPages_errors:
  assumes "addPageToPages fuel w pageObj pDict = Some (r, w')"
  shows "r \<noteq> Some InvalidParent"
  using assms unfolding addPageToPages_def Let_def
  by (auto split: option.splits prod.splits dest!: addObjects_errors)

lemma asDictionary_Some: "asDictionary h body = Some d \<Longrightarrow> body = Ptr d"
  by (auto simp: asDictionary_def split: PdfObject.splits option.splits cell.splits)


lemma AddPage_exampleTree:
  "\<exists>w'. AddPage 2 (writerWith 3 3 2 3 [Ptr 3] exampleTree) (Ptr 13) = Some (None, w')"
  by (simp add: AddPage_def addPageToPages_def exampleTree_def eval_defs numeral_2_eq_2 int64_def)

lemma parentChain_exampleTree: "parentChain 2 exampleTree (Ptr 11) = Some (True, [10, 7])"
  by (simp add: exampleTree_def eval_defs numeral_2_eq_2)


text \<open>
  Claim C5 says that a \<open>Parent\<close> entry that is present but is not an indirect
  object makes \<open>AddPage\<close> fail with \<open>InvalidParent\<close>. In the example tree the
  grandparent's \<open>Parent\<close> is an unresolved reference, the grandparent is among
  the ancestors the walk visits, and \<open>AddPage\<close> returns no error.
\<close>

theorem AddPage_accepts_parent_that_is_no_indirect_object:
  "parentChain 2 exampleTree (Ptr 11) = Some (True, [10, 7])
   \<and> dictLookup exampleTree 7 ''Parent'' = Some (Ptr 5)
   \<and> deref exampleTree (Ptr 5) = Some (PdfObjectReference 9 0)
   \<and> (\<exists>w'. AddPage 2 (writerWith 3 3 2 3 [Ptr 3] exampleTree) (Ptr 13) = Some (None, w'))"
  using AddPage_exampleTree parentChain_exampleTree
  by (simp add: exampleTree_def eval_defs)

text \<open>
  Claim C5, amended. For a page whose chain of ancestors ends within the
  fuel: if the walk ends at an indirect object that holds no dictionary,
  \<open>AddPage\<close> returns the error \<open>InvalidParent\<close>; if it ends at a \<open>Parent\<close>
  entry that is not an indirect object, no \<open>AddPage\<close> that returns does so
  with \<open>InvalidParent\<close>.
\<close>

theorem AddPage_InvalidParent_iff:
  assumes "asIndirectObject (heap w) obj = Some (pageObj, body)"
    and "asDictionary (heap w) body = Some pDict"
    and "asName (heap w) (dictIndex (heap w) pDict ''Type'') = Some ''Page''"
    and "parentChain fuel (heap w) (dictIndex (heap w) pDict ''Parent'') = Some (ok, ds)"
  shows "(\<not> ok \<longrightarrow> (\<exists>w'. AddPage fuel w obj = Some (Some InvalidParent, w')))
       \<and> (ok \<longrightarrow> (\<forall>r w'. AddPage fuel w obj = Some (r, w') \<longrightarrow> r \<noteq> Some InvalidParent))"
proof (cases ok)
  case False
  with inheritLoop_invalid [of fuel "heap w" _ ds pDict] assms(4) obtain h' where
    "inheritLoop fuel (heap w) pDict (dictIndex (heap w) pDict ''Parent'') = Some (Some InvalidParent, h')"
    by auto
  with assms(1-3) False show ?thesis by (simp add: AddPage_def)
next
  case True
  have pd: "asDictionary (heap w) (Ptr pDict) \<noteq> None"
    using assms(2) asDictionary_Some [OF assms(2)] by simp
  from assms(4) True
  have "parentChain fuel (heap w) (dictIndex (heap w) pDict ''Parent'') = Some (True, ds)" by simp
  from inheritLoop_effective [OF pd this] obtain h' where
    l: "inheritLoop fuel (heap w) pDict (dictIndex (heap w) pDict ''Parent'') = Some (None, h')"
    by blast
  have "r \<noteq> Some InvalidParent" if "AddPage fuel w obj = Some (r, w')" for r w'
  proof -
    from that assms(1-3) l have "addPageToPages fuel (w\<lparr>heap := h'\<rparr>) pageObj pDict = Some (r, w')"
      by (simp add: AddPage_def)
    then show ?thesis by (rule addPageToPages_errors)
  qed
  with True show ?thesis by blast
qed

theorem AddPage_InvalidParent_iff_witness:
  "\<exists>w'. AddPage 1 (writerWith 0 0 0 0 [] exampleBadParent) (Ptr 4) = Some (Some InvalidParent, w')"
  using AddPage_InvalidParent_iff
    [of "writerWith 0 0 0 0 [] exampleBadParent" "Ptr 4" 4 "Ptr 3" 3 1 False "[]"]
  by (simp add: exampleBadParent_def eval_defs)

section \<open>Write: the loop over the objects\<close>

lemma prefix_drop_append:
  "k \<le> length xs \<Longrightarrow> prefix m (drop k xs) \<Longrightarrow> prefix m (drop k (xs @ ys))"
  by (auto simp: prefix_def)

lemma objectNumber_keepsNumbers:
  "objectNumber h obj \<noteq> None \<Longrightarrow> keepsNumbers h h' \<Longrightarrow> objectNumber h' obj = objectNumber h obj"
  by (cases obj)
     (auto simp: objectNumber_def deref_def heapGet_def keepsNumbers_def split: if_splits)

lemma allNumbered_keepsNumbers:
  assumes "allNumbered h objs" and "keepsNumbers h h'"
  shows "allNumbered h' objs"
  unfolding allNumbered_def
proof
  fix obj assume "obj \<in> set objs"
  with assms(1) have n: "objectNumber h obj \<noteq> None" by (simp add: allNumbered_def)
  from objectNumber_keepsNumbers [OF n assms(2)] n show "objectNumber h' obj \<noteq> None" by simp
qed

lemma allNumbered_setObjectNumber:
  "allNumbered h objs \<Longrightarrow> allNumbered (setObjectNumber h obj num) objs"
  by (simp add: allNumbered_def objectNumber_setObjectNumber)

lemma allNumbered_updateObjectNumbersFrom:
  "allNumbered h objs' \<Longrightarrow> allNumbered (updateObjectNumbersFrom h idx objs) objs'"
proof (induction objs arbitrary: h idx)
  case Nil
  then show ?case by simp
next
  case (Cons obj objs)
  from Cons.IH [OF allNumbered_setObjectNumber [OF Cons.prems]] show ?case by simp
qed

text \<open>Objects that \<open>writeObject\<close> writes without a panic, and the steps of \<open>Write\<close> that keep them so.\<close>

lemma writable_numbered: "writable h obj \<Longrightarrow> objectNumber h obj \<noteq> None"
  by (auto simp: writable_def objectNumber_def cellNumber_def split: option.splits cell.splits)

lemma writeObject_writable: "writable h obj \<Longrightarrow> \<exists>tx. writeObject dws h num obj = Inr tx"
  by (auto simp: writable_def writeObject_def split: option.splits cell.splits)

lemma writable_dictSet [simp]: "writable (dictSet h d k v) obj = writable h obj"
  by (cases obj)
     (auto simp: writable_def deref_def dictSet_def heapGet_def nth_list_update
           split: option.splits cell.splits if_splits)

lemma writable_append: "writable h obj \<Longrightarrow> writable (h @ cs) obj"
  by (cases obj)
     (auto simp: writable_def deref_def heapGet_def nth_append split: option.splits cell.splits if_splits)

lemma writable_setObjectNumber: "writable h obj \<Longrightarrow> writable (setObjectNumber h obj' num) obj"
  by (cases obj; cases obj')
     (auto simp: writable_def deref_def setObjectNumber_def heapGet_def nth_list_update
           split: option.splits cell.splits if_splits)

lemma writable_updateObjectNumbersFrom:
  "writable h obj \<Longrightarrow> writable (updateObjectNumbersFrom h idx objs) obj"
  by (induction objs arbitrary: h idx) (auto intro: writable_setObjectNumber)

lemma writable_nullFirstEntry: "writable h obj \<Longrightarrow> writable (nullFirstEntry h d p kvs) obj"
  by (induction kvs) (auto simp: MakeNull_def alloc_def intro: writable_append)

lemma writable_checkPending: "writable (heap w) obj \<Longrightarrow> writable (heap (checkPending w ps)) obj"
proof (induction ps arbitrary: w)
  case Nil
  then show ?case by simp
next
  case (Cons p ps)
  obtain po d where p: "p = (po, d)" by (cases p)
  let ?w1 = "w\<lparr>heap := nullFirstEntry (heap w) d po (dictOf (heap w) d)\<rparr>"
  have "writable (heap ?w1) obj" using Cons.prems by (simp add: writable_nullFirstEntry)
  from Cons.IH [OF this] Cons.IH [OF Cons.prems] show ?case by (simp add: p)
qed

lemma writable_stampVersion: "writable (heap w) obj \<Longrightarrow> writable (heap (stampVersion w)) obj"
  by (simp add: stampVersion_def MakeName_def alloc_def writable_append)

text \<open>The encryption step before an object is written.\<close>

lemma encryptObject_None [simp]: "crypter w = None \<Longrightarrow> encryptObject encrypt w obj idx = Inr w"
  by (simp add: encryptObject_def)

lemma encryptObject_keeps:
  assumes "encryptObject encrypt w obj idx = Inr w1"
    and "crypter w = None \<or>
         (\<forall>c h obj num gen c' h'. encrypt c h obj num gen = Inr (c', h') \<longrightarrow> keepsNumbers h h')"
  shows "keepsNumbers (heap w) (heap w1)" and "crypter w = None \<longrightarrow> crypter w1 = None"
proof -
  show "crypter w = None \<longrightarrow> crypter w1 = None" using assms(1) by auto
  show "keepsNumbers (heap w) (heap w1)"
  proof (cases "crypter w")
    case None
    with assms(1) show ?thesis by simp
  next
    case (Some c)
    with assms(2) have
      e: "\<And>c h obj num gen c' h'. encrypt c h obj num gen = Inr (c', h') \<Longrightarrow> keepsNumbers h h'"
      by auto
    from assms(1) Some show ?thesis
      by (auto simp: encryptObject_def split: if_splits sum.splits dest: e)
  qed
qed

text \<open>
  A loop that ends without error has gathered one offset for each object,
  and at each offset the sink holds the object's number and \<open>0 obj\<close>.
\<close>

lemma writeObjects_returns:
  assumes "writeObjects dws encrypt w idx objs offsets ws = (None, w', offsets', ws')"
    and "allNumbered (heap w) objs"
    and "crypter w = None \<or>
         (\<forall>c h obj num gen c' h'. encrypt c h obj num gen = Inr (c', h') \<longrightarrow> keepsNumbers h h')"
  shows "\<exists>news. offsets' = offsets @ news \<and> length news = length objs \<and> prefix ws ws'
           \<and> (\<forall>i < length objs. int (length ws) \<le> news ! i \<and> nat (news ! i) \<le> length ws'
                  \<and> prefix (marker (idx + i)) (drop (nat (news ! i)) ws'))
           \<and> keepsNumbers (heap w) (heap w')"
  using assms
proof (induction objs arbitrary: w idx offsets ws)
  case Nil
  then show ?case by simp
next
  case (Cons obj objs)
  from Cons.prems(1) obtain w1 tx where
    e: "encryptObject encrypt w obj idx = Inr w1" and
    t: "writeObject dws (heap w1) (int idx + 1) obj = Inr tx" and
    r: "writeObjects dws encrypt w1 (Suc idx) objs (offsets @ [int (length ws)]) (ws @ tx)
          = (None, w', offsets', ws')"
    by (auto simp: Let_def split: sum.splits)
  from encryptObject_keeps [OF e Cons.prems(3)] have
    k1: "keepsNumbers (heap w) (heap w1)" and c1: "crypter w = None \<longrightarrow> crypter w1 = None"
    by simp_all
  from Cons.prems(3) c1 have e1: "crypter w1 = None \<or>
         (\<forall>c h obj num gen c' h'. encrypt c h obj num gen = Inr (c', h') \<longrightarrow> keepsNumbers h h')"
    by blast
  from allNumbered_keepsNumbers [OF Cons.prems(2) k1] have
    no: "objectNumber (heap w1) obj \<noteq> None" and rest: "allNumbered (heap w1) objs"
    by (simp_all add: allNumbered_def)
  from writeObject_marker [OF t no] obtain rest0 where
    tx: "tx = marker idx @ rest0" by (auto simp: marker_def)
  from Cons.IH [OF r rest e1] obtain news where
    o: "offsets' = (offsets @ [int (length ws)]) @ news" and
    l: "length news = length objs" and
    p: "prefix (ws @ tx) ws'" and
    m: "\<forall>i < length objs. int (length (ws @ tx)) \<le> news ! i \<and> nat (news ! i) \<le> length ws'
                  \<and> prefix (marker (Suc idx + i)) (drop (nat (news ! i)) ws')" and
    k: "keepsNumbers (heap w1) (heap w')"
    by blast
  let ?news = "int (length ws) # news"
  have 1: "offsets' = offsets @ ?news" using o by simp
  have 2: "length ?news = length (obj # objs)" using l by simp
  have 3: "prefix ws ws'" using p by (auto simp: prefix_def)
  from p obtain more where ws': "ws' = ws @ tx @ more" by (auto simp: prefix_def)
  have 4: "int (length ws) \<le> ?news ! i \<and> nat (?news ! i) \<le> length ws'
                  \<and> prefix (marker (idx + i)) (drop (nat (?news ! i)) ws')"
    if "i < length (obj # objs)" for i
  proof (cases i)
    case 0
    then show ?thesis using ws' tx by (simp add: prefix_def)
  next
    case (Suc j)
    with that m have "int (length (ws @ tx)) \<le> news ! j \<and> nat (news ! j) \<le> length ws'
                  \<and> prefix (marker (Suc idx + j)) (drop (nat (news ! j)) ws')" by simp
    with Suc show ?thesis by simp
  qed
  have 5: "keepsNumbers (heap w) (heap w')" by (rule keepsNumbers_trans [OF k1 k])
  from 1 2 3 4 5 show ?case by blast
qed

text \<open>Without a security handler the loop leaves the writer as it is, and ends without error if no object makes \<open>writeObject\<close> panic.\<close>

lemma writeObjects_unencrypted_writer:
  "crypter w = None \<Longrightarrow> fst (snd (writeObjects dws encrypt w idx objs offsets ws)) = w"
  by (induction objs arbitrary: idx offsets ws) (auto simp: Let_def split: sum.splits)

lemma writeObjects_unencrypted:
  assumes "crypter w = None" and "\<forall>obj \<in> set objs. writable (heap w) obj"
  shows "\<exists>offsets' ws'. writeObjects dws encrypt w idx objs offsets ws = (None, w, offsets', ws')"
  using assms(2)
proof (induction objs arbitrary: idx offsets ws)
  case Nil
  show ?case by simp
next
  case (Cons obj objs)
  from Cons.prems have "writable (heap w) obj" by simp
  from writeObject_writable [OF this] obtain tx where
    t: "writeObject dws (heap w) (int idx + 1) obj = Inr tx" by blast
  from Cons.IH [of "Suc idx" "offsets @ [int (length ws)]" "ws @ tx"] Cons.prems
  show ?case using assms(1) t by (simp add: Let_def)
qed

lemma keepsNumbers_nullFirstEntry [simp]: "keepsNumbers h (nullFirstEntry h d p kvs)"
  by (induction kvs)
     (auto simp: MakeNull_def alloc_def intro!: keepsNumbers_then_dictSet keepsNumbers_then_append)

lemma checkPending_fields [simp]:
  "crypter (checkPending w ps) = crypter w"
  "catalog (checkPending w ps) = catalog w"
  "infoObj (checkPending w ps) = infoObj w"
  "root (checkPending w ps) = root w"
  "majorVersion (checkPending w ps) = majorVersion w"
  "minorVersion (checkPending w ps) = minorVersion w"
  "encryptObj (checkPending w ps) = encryptObj w"
  by (induction ps arbitrary: w) auto

lemma keepsNumbers_checkPending [simp]: "keepsNumbers (heap w) (heap (checkPending w ps))"
proof (induction ps arbitrary: w)
  case Nil
  show ?case by simp
next
  case (Cons p ps)
  obtain obj d where p: "p = (obj, d)" by (cases p)
  let ?w1 = "w\<lparr>heap := nullFirstEntry (heap w) d obj (dictOf (heap w) d)\<rparr>"
  have "keepsNumbers (heap w) (heap ?w1)" by simp
  from keepsNumbers_trans [OF this Cons.IH [of ?w1]] Cons.IH [of w]
  show ?case by (simp add: p)
qed

lemma heapGet_dictSet_other: "a \<noteq> d \<Longrightarrow> heapGet (dictSet h d k v) a = heapGet h a"
  by (auto simp: dictSet_def heapGet_def split: option.splits cell.splits)

lemma asDictionary_alloc_dict: "asDictionary (h @ [PdfObjectDictionary kvs]) (Ptr (length h)) \<noteq> None"
  by (simp add: asDictionary_def heapGet_def)

lemma asDictionary_append:
  "asDictionary h (Ptr a) \<noteq> None \<Longrightarrow> asDictionary (h @ cs) (Ptr a) \<noteq> None"
  by (auto simp: asDictionary_def heapGet_def nth_append split: option.splits cell.splits if_splits)

text \<open>The trailer: its \<open>Size\<close>, with or without a security handler.\<close>

lemma makeTrailer_Size:
  assumes "makeTrailer w = (t, h)"
  shows "\<exists>s. dictLookup h t ''Size'' = Some (Ptr s)
           \<and> heapGet h s = Some (PdfObjectInteger (int (length (objects w)) + 1))"
proof -
  define h1 where "h1 = heap w @ [PdfObjectDictionary []]"
  define h3 where "h3 = dictSet (dictSet h1 (length (heap w)) ''Info'' (Ptr (infoObj w)))
                          (length (heap w)) ''Root'' (Ptr (root w))"
  define h4 where "h4 = h3 @ [PdfObjectInteger (int (length (objects w)) + 1)]"
  define h5 where "h5 = dictSet h4 (length (heap w)) ''Size'' (Ptr (length h3))"
  define e where "e = (case encryptObj w of Some e \<Rightarrow> Ptr e | None \<Rightarrow> NilInterface)"
  define i where "i = (case ids w of Some a \<Rightarrow> Ptr a | None \<Rightarrow> NilArrayPtr)"
  have l3: "length h3 = Suc (length (heap w))" by (simp add: h3_def h1_def)
  have d3: "asDictionary h3 (Ptr (length (heap w))) \<noteq> None"
    unfolding h3_def h1_def by (simp add: asDictionary_alloc_dict)
  then have d4: "asDictionary h4 (Ptr (length (heap w))) \<noteq> None"
    unfolding h4_def by (rule asDictionary_append)
  have s5: "dictLookup h5 (length (heap w)) ''Size'' = Some (Ptr (length h3))"
    using d4 by (simp add: h5_def dictLookup_dictSet)
  have "heapGet h4 (length h3) = Some (PdfObjectInteger (int (length (objects w)) + 1))"
    by (simp add: h4_def heapGet_def)
  then have g5: "heapGet h5 (length h3) = Some (PdfObjectInteger (int (length (objects w)) + 1))"
    unfolding h5_def using l3 by (simp add: heapGet_dictSet_other)
  show ?thesis
  proof (cases "crypter w")
    case None
    then have "makeTrailer w = (length (heap w), h5)"
      by (simp add: makeTrailer_def Let_def alloc_def MakeInteger_def h1_def h3_def h4_def h5_def)
    with assms have "t = length (heap w)" and "h = h5" by auto
    with s5 g5 show ?thesis by blast
  next
    case (Some c)
    then have "makeTrailer w =
        (length (heap w), dictSet (dictSet h5 (length (heap w)) ''Encrypt'' e) (length (heap w)) ''ID'' i)"
      by (simp add: makeTrailer_def Let_def alloc_def MakeInteger_def h1_def h3_def h4_def h5_def
          e_def i_def)
    with assms have t: "t = length (heap w)"
      and h: "h = dictSet (dictSet h5 (length (heap w)) ''Encrypt'' e) (length (heap w)) ''ID'' i"
      by auto
    have "dictLookup h t ''Size'' = Some (Ptr (length h3))"
      using s5 by (simp add: h t dictLookup_dictSet)
    moreover have "heapGet h (length h3) = Some (PdfObjectInteger (int (length (objects w)) + 1))"
      using g5 l3 by (simp add: h heapGet_dictSet_other)
    ultimately show ?thesis by blast
  qed
qed

lemma keepsNumbers_makeTrailer: "keepsNumbers (heap w) (snd (makeTrailer w))"
proof -
  define h1 where "h1 = heap w @ [PdfObjectDictionary []]"
  define h3 where "h3 = dictSet (dictSet h1 (length (heap w)) ''Info'' (Ptr (infoObj w)))
                          (length (heap w)) ''Root'' (Ptr (root w))"
  define h5 where "h5 = dictSet (h3 @ [PdfObjectInteger (int (length (objects w)) + 1)])
                          (length (heap w)) ''Size'' (Ptr (length h3))"
  have k5: "keepsNumbers (heap w) h5"
    unfolding h5_def h3_def h1_def
    by (intro keepsNumbers_then_dictSet keepsNumbers_then_append keepsNumbers_refl)
  show ?thesis
  proof (cases "crypter w")
    case None
    then have "snd (makeTrailer w) = h5"
      by (simp add: makeTrailer_def Let_def alloc_def MakeInteger_def h1_def h3_def h5_def)
    with k5 show ?thesis by simp
  next
    case (Some c)
    then have "snd (makeTrailer w) =
        dictSet (dictSet h5 (length (heap w)) ''Encrypt''
                   (case encryptObj w of Some e \<Rightarrow> Ptr e | None \<Rightarrow> NilInterface))
          (length (heap w)) ''ID'' (case ids w of Some a \<Rightarrow> Ptr a | None \<Rightarrow> NilArrayPtr)"
      by (simp add: makeTrailer_def Let_def alloc_def MakeInteger_def h1_def h3_def h5_def)
    with k5 show ?thesis by (simp add: keepsNumbers_then_dictSet)
  qed
qed

lemma stampVersion_fields [simp]:
  "crypter (stampVersion w) = crypter w"
  "majorVersion (stampVersion w) = majorVersion w"
  "minorVersion (stampVersion w) = minorVersion w"
  "encryptObj (stampVersion w) = encryptObj w"
  by (simp_all add: stampVersion_def Let_def split: prod.splits)

lemma updateObjectNumbers_fields [simp]:
  "crypter (updateObjectNumbers w) = crypter w"
  "encryptObj (updateObjectNumbers w) = encryptObj w"
  by (simp_all add: updateObjectNumbers_def)

lemma keepsNumbers_stampVersion [simp]: "keepsNumbers (heap w) (heap (stampVersion w))"
  by (simp add: stampVersion_def MakeName_def alloc_def keepsNumbers_then_dictSet
      keepsNumbers_then_append)

lemma writeTail_out:
  "\<exists>trailer size w'.
      writeTail dws w offsets ws =
        (w', ws @ xrefTable (length (objects w)) offsets
               @ ''trailer'' @ LF @ dws (heap w') (Ptr trailer) @ LF
               @ ''startxref'' @ LF @ showInt (int (length ws)) @ LF @ ''%%EOF'' @ LF)
    \<and> w' = w\<lparr>heap := snd (makeTrailer w)\<rparr>
    \<and> dictLookup (heap w') trailer ''Size'' = Some (Ptr size)
    \<and> heapGet (heap w') size = Some (PdfObjectInteger (int (length (objects w)) + 1))"
proof -
  obtain t h where mt: "makeTrailer w = (t, h)" by (cases "makeTrailer w")
  from makeTrailer_Size [OF mt] obtain s where
    "dictLookup h t ''Size'' = Some (Ptr s)"
    "heapGet h s = Some (PdfObjectInteger (int (length (objects w)) + 1))"
    by blast
  then show ?thesis
    by (intro exI [of _ t] exI [of _ s] exI [of _ "w\<lparr>heap := h\<rparr>"])
       (simp add: writeTail_def Let_def mt)
qed

text \<open>
  \<open>Write\<close> from "Check pending objects" on, when it ends without error: what
  the sink holds, and that the store keeps the numbers the objects got before
  the loop.
\<close>

lemma writeBody_returns:
  assumes wb: "writeBody dws encrypt w ws = (None, w', out)"
    and a: "allNumbered (heap w) (objects w)"
    and e: "crypter w = None \<or>
         (\<forall>c h obj num gen c' h'. encrypt c h obj num gen = Inr (c', h') \<longrightarrow> keepsNumbers h h')"
  shows "\<exists>body offsets trailer size.
      out = ws @ body @ xrefTable (length (objects w)) offsets
               @ ''trailer'' @ LF @ dws (heap w') (Ptr trailer) @ LF
               @ ''startxref'' @ LF @ showInt (int (length (ws @ body))) @ LF @ ''%%EOF'' @ LF
    \<and> objects w' = objects w \<and> length offsets = length (objects w)
    \<and> dictLookup (heap w') trailer ''Size'' = Some (Ptr size)
    \<and> heapGet (heap w') size = Some (PdfObjectInteger (int (length (objects w)) + 1))
    \<and> (\<forall>i < length (objects w). 0 \<le> offsets ! i \<and> nat (offsets ! i) \<le> length (ws @ body)
           \<and> prefix (marker i) (drop (nat (offsets ! i)) (ws @ body)))
    \<and> keepsNumbers (heap (updateObjectNumbers (stampVersion (checkPending w (pendingObjects w)))))
         (heap w')"
proof -
  let ?this2 = "stampVersion (checkPending w (pendingObjects w))"
  let ?this3 = "updateObjectNumbers ?this2"
  let ?ws2 = "ws @ fileHeader ?this2"
  have k2: "keepsNumbers (heap w) (heap ?this2)"
    by (rule keepsNumbers_trans [OF keepsNumbers_checkPending keepsNumbers_stampVersion])
  have e3: "crypter ?this3 = None \<or>
         (\<forall>c h obj num gen c' h'. encrypt c h obj num gen = Inr (c', h') \<longrightarrow> keepsNumbers h h')"
    using e by simp
  have a3: "allNumbered (heap ?this3) (objects w)"
    using allNumbered_keepsNumbers [OF a k2]
    by (simp add: updateObjectNumbers_def allNumbered_updateObjectNumbersFrom)
  obtain r wL news ws3 where
    r0: "writeObjects dws encrypt ?this3 0 (objects w) [] ?ws2 = (r, wL, news, ws3)"
    by (cases "writeObjects dws encrypt ?this3 0 (objects w) [] ?ws2")
  from wb r0 have rn: "r = None" and wt: "writeTail dws wL news ws3 = (w', out)"
    by (auto simp: writeBody_def Let_def split: option.splits prod.splits)
  from r0 rn have r: "writeObjects dws encrypt ?this3 0 (objects w) [] ?ws2 = (None, wL, news, ws3)"
    by simp
  from objects_writeObjects [OF r] have oL: "objects wL = objects w" by simp
  from writeObjects_returns [OF r a3 e3] have
    l: "length news = length (objects w)" and
    p: "prefix ?ws2 ws3" and
    m: "\<forall>i < length (objects w). int (length ?ws2) \<le> news ! i \<and> nat (news ! i) \<le> length ws3
                  \<and> prefix (marker (0 + i)) (drop (nat (news ! i)) ws3)" and
    k3: "keepsNumbers (heap ?this3) (heap wL)"
    by auto
  from p obtain body0 where ws3: "ws3 = ws @ fileHeader ?this2 @ body0" by (auto simp: prefix_def)
  from writeTail_out [of dws wL news ws3] wt obtain t s where
    out: "out = ws3 @ xrefTable (length (objects wL)) news
               @ ''trailer'' @ LF @ dws (heap w') (Ptr t) @ LF
               @ ''startxref'' @ LF @ showInt (int (length ws3)) @ LF @ ''%%EOF'' @ LF" and
    w': "w' = wL\<lparr>heap := snd (makeTrailer wL)\<rparr>" and
    sz: "dictLookup (heap w') t ''Size'' = Some (Ptr s)"
        "heapGet (heap w') s = Some (PdfObjectInteger (int (length (objects wL)) + 1))"
    by auto
  have ow: "objects w' = objects w" using w' oL by simp
  have k4: "keepsNumbers (heap ?this3) (heap w')"
    using keepsNumbers_trans [OF k3 keepsNumbers_makeTrailer [of wL]] w' by simp
  have m': "\<forall>i < length (objects w). 0 \<le> news ! i
           \<and> nat (news ! i) \<le> length (ws @ fileHeader ?this2 @ body0)
           \<and> prefix (marker i) (drop (nat (news ! i)) (ws @ fileHeader ?this2 @ body0))"
    using m unfolding ws3 by auto
  show ?thesis
    apply (rule exI [of _ "fileHeader ?this2 @ body0"])
    apply (rule exI [of _ news])
    apply (rule exI [of _ t])
    apply (rule exI [of _ s])
    using out l m' sz ow oL ws3 k4 by simp
qed

lemma writeBody_numbers:
  assumes wb: "writeBody dws encrypt w ws = (None, w', out)"
    and a: "allNumbered (heap w) (objects w)"
    and e: "crypter w = None \<or>
         (\<forall>c h obj num gen c' h'. encrypt c h obj num gen = Inr (c', h') \<longrightarrow> keepsNumbers h h')"
    and d: "distinct (objects w)" and i: "i < length (objects w)"
  shows "objectNumber (heap w') (objects w ! i) = Some (int i + 1, 0)"
proof -
  let ?this2 = "stampVersion (checkPending w (pendingObjects w))"
  let ?this3 = "updateObjectNumbers ?this2"
  have k2: "keepsNumbers (heap w) (heap ?this2)"
    by (rule keepsNumbers_trans [OF keepsNumbers_checkPending keepsNumbers_stampVersion])
  from allNumbered_keepsNumbers [OF a k2] i have "objectNumber (heap ?this2) (objects w ! i) \<noteq> None"
    by (simp add: allNumbered_def)
  from objectNumber_updateObjectNumbersFrom [OF d i this, of 0]
  have n3: "objectNumber (heap ?this3) (objects w ! i) = Some (int i + 1, 0)"
    by (simp add: updateObjectNumbers_def)
  from writeBody_returns [OF wb a e] have k: "keepsNumbers (heap ?this3) (heap w')" by blast
  from n3 have "objectNumber (heap ?this3) (objects w ! i) \<noteq> None" by simp
  from objectNumber_keepsNumbers [OF this k] n3 show ?thesis by simp
qed

lemma writeBody_unencrypted:
  assumes c: "crypter w = None" and wr: "\<forall>obj \<in> set (objects w). writable (heap w) obj"
  shows "\<exists>w' out. writeBody dws encrypt w ws = (None, w', out)"
proof -
  let ?this2 = "stampVersion (checkPending w (pendingObjects w))"
  let ?this3 = "updateObjectNumbers ?this2"
  let ?ws2 = "ws @ fileHeader ?this2"
  have c3: "crypter ?this3 = None" using c by simp
  have w3: "\<forall>obj \<in> set (objects w). writable (heap ?this3) obj"
    using wr
    by (simp add: updateObjectNumbers_def writable_updateObjectNumbersFrom writable_stampVersion
        writable_checkPending)
  from writeObjects_unencrypted [OF c3 w3, of dws encrypt 0 "[]" ?ws2] obtain offs ws3 where
    r: "writeObjects dws encrypt ?this3 0 (objects w) [] ?ws2 = (None, ?this3, offs, ws3)"
    by blast
  show ?thesis using r by (simp add: writeBody_def Let_def split: prod.splits)
qed

lemma writeBody_heap:
  assumes c: "crypter w = None" and wb: "writeBody dws encrypt w ws = (None, w', out)"
  shows "heap w' =
           snd (makeTrailer (updateObjectNumbers (stampVersion (checkPending w (pendingObjects w)))))"
proof -
  let ?this2 = "stampVersion (checkPending w (pendingObjects w))"
  let ?this3 = "updateObjectNumbers ?this2"
  let ?ws2 = "ws @ fileHeader ?this2"
  have c3: "crypter ?this3 = None" using c by simp
  obtain r wL news ws3 where
    r0: "writeObjects dws encrypt ?this3 0 (objects w) [] ?ws2 = (r, wL, news, ws3)"
    by (cases "writeObjects dws encrypt ?this3 0 (objects w) [] ?ws2")
  from writeObjects_unencrypted_writer [OF c3, of dws encrypt 0 "objects w" "[]" ?ws2] r0
  have wL: "wL = ?this3" by simp
  from wb r0 have "writeTail dws wL news ws3 = (w', out)"
    by (auto simp: writeBody_def Let_def split: option.splits prod.splits)
  then show ?thesis unfolding wL by (auto simp: writeTail_def Let_def split: prod.splits)
qed

text \<open>The outline tree and the AcroForm, attached before.\<close>

lemma addObjects_fields:
  assumes "addObjects n w obj = Some (r, w')"
  shows "crypter w' = crypter w \<and> outlineTree w' = outlineTree w \<and> acroForm w' = acroForm w
       \<and> encryptObj w' = encryptObj w"
  by (rule addObjects_rel(1) [where P = "\<lambda>w r w'. crypter w' = crypter w
        \<and> outlineTree w' = outlineTree w \<and> acroForm w' = acroForm w
        \<and> encryptObj w' = encryptObj w", OF _ _ _ _ _ _ _ assms])
     (simp_all add: addObject_def)

lemma attachToCatalog_fields:
  assumes "attachToCatalog fuel w key f = Some (r, w')"
  shows "crypter w' = crypter w \<and> outlineTree w' = outlineTree w \<and> acroForm w' = acroForm w
       \<and> encryptObj w' = encryptObj w \<and> grows w w'"
proof -
  from assms have "addObjects fuel
      (w\<lparr>heap := dictSet (snd (f (heap w))) (catalog w) key (fst (f (heap w)))\<rparr>) (fst (f (heap w)))
        = Some (r, w')"
    by (simp add: attachToCatalog_def Let_def case_prod_beta)
  from addObjects_fields [OF this] attachToCatalog_grows [OF assms] show ?thesis by simp
qed

lemma attachToCatalog_keeps:
  assumes "attachToCatalog fuel w key f = Some (r, w')"
    and "\<And>h. keepsNumbers h (snd (f h))"
    and "allNumbered (heap w) (objects w)"
  shows "allNumbered (heap w') (objects w')"
proof -
  let ?h = "dictSet (snd (f (heap w))) (catalog w) key (fst (f (heap w)))"
  let ?w1 = "w\<lparr>heap := ?h\<rparr>"
  from assms(1) have a: "addObjects fuel ?w1 (fst (f (heap w))) = Some (r, w')"
    by (simp add: attachToCatalog_def Let_def case_prod_beta)
  have "keepsNumbers (heap w) ?h"
    by (rule keepsNumbers_then_dictSet) (rule assms(2))
  from allNumbered_keepsNumbers [OF assms(3) this]
  have "allNumbered (heap ?w1) (objects ?w1)" by simp
  with addObjects_allNumbered [OF a] show ?thesis by simp
qed

lemma attachOutlinesAndForms_fields:
  assumes "attachOutlinesAndForms fuel w = Some (r, wB)"
  shows "crypter wB = crypter w \<and> encryptObj wB = encryptObj w \<and> grows w wB"
proof -
  obtain rA wA where
    A: "(case outlineTree w of Some tree \<Rightarrow> attachToCatalog fuel w ''Outlines'' tree
           | None \<Rightarrow> Some (None, w)) = Some (rA, wA)" and
    B: "(rA \<noteq> None \<and> wB = wA) \<or>
        (case acroForm wA of Some form \<Rightarrow> attachToCatalog fuel wA ''AcroForm'' form
           | None \<Rightarrow> Some (None, wA)) = Some (r, wB)"
    using assms by (auto simp: attachOutlinesAndForms_def split: option.splits prod.splits)
  have fA: "crypter wA = crypter w \<and> encryptObj wA = encryptObj w \<and> grows w wA"
  proof (cases "outlineTree w")
    case None
    with A show ?thesis by (simp add: grows_def)
  next
    case (Some tree)
    with A have "attachToCatalog fuel w ''Outlines'' tree = Some (rA, wA)" by simp
    from attachToCatalog_fields [OF this] show ?thesis by simp
  qed
  from B show ?thesis
  proof
    assume "rA \<noteq> None \<and> wB = wA"
    with fA show ?thesis by simp
  next
    assume b: "(case acroForm wA of Some form \<Rightarrow> attachToCatalog fuel wA ''AcroForm'' form
           | None \<Rightarrow> Some (None, wA)) = Some (r, wB)"
    show ?thesis
    proof (cases "acroForm wA")
      case None
      with b fA show ?thesis by simp
    next
      case (Some form)
      with b have "attachToCatalog fuel wA ''AcroForm'' form = Some (r, wB)" by simp
      from attachToCatalog_fields [OF this] fA show ?thesis by (auto intro: grows_trans)
    qed
  qed
qed

lemma attachOutlinesAndForms_keeps:
  assumes "attachOutlinesAndForms fuel w = Some (None, wB)"
    and "allNumbered (heap w) (objects w)"
    and "\<forall>f h. outlineTree w = Some f \<or> acroForm w = Some f \<longrightarrow> keepsNumbers h (snd (f h))"
  shows "allNumbered (heap wB) (objects wB)"
proof -
  obtain wA where
    A: "(case outlineTree w of Some tree \<Rightarrow> attachToCatalog fuel w ''Outlines'' tree
           | None \<Rightarrow> Some (None, w)) = Some (None, wA)" and
    B: "(case acroForm wA of Some form \<Rightarrow> attachToCatalog fuel wA ''AcroForm'' form
           | None \<Rightarrow> Some (None, wA)) = Some (None, wB)"
    using assms(1) by (auto simp: attachOutlinesAndForms_def split: option.splits prod.splits)
  have kA: "allNumbered (heap wA) (objects wA) \<and> acroForm wA = acroForm w"
  proof (cases "outlineTree w")
    case None
    with A assms(2) show ?thesis by simp
  next
    case (Some tree)
    with A have t: "attachToCatalog fuel w ''Outlines'' tree = Some (None, wA)" by simp
    from attachToCatalog_keeps [OF t _ assms(2)] attachToCatalog_fields [OF t] assms(3) Some
    show ?thesis by simp
  qed
  show ?thesis
  proof (cases "acroForm wA")
    case None
    with B kA show ?thesis by simp
  next
    case (Some form)
    with B have "attachToCatalog fuel wA ''AcroForm'' form = Some (None, wB)" by simp
    from attachToCatalog_keeps [OF this] kA assms(3) Some show ?thesis by simp
  qed
qed

lemma Write_attached:
  assumes "Write dws encrypt fuel w ws = Some (r, w', out)"
  shows "\<exists>rA wA. attachOutlinesAndForms fuel w = Some (rA, wA)
           \<and> (case rA of Some err \<Rightarrow> r = Some err \<and> w' = wA \<and> out = ws
              | None \<Rightarrow> writeBody dws encrypt wA ws = (r, w', out))"
  using assms by (auto simp: Write_def split: option.splits prod.splits)

lemma Write_unencrypted_returns:
  assumes "crypter w = None" and "\<forall>obj \<in> set (objects w). writable (heap w) obj"
    and "outlineTree w = None" and "acroForm w = None"
  shows "\<exists>w' out. Write dws encrypt fuel w ws = Some (None, w', out) \<and> objects w' = objects w"
proof -
  from writeBody_unencrypted [OF assms(1,2), of dws encrypt ws] obtain w' out where
    wb: "writeBody dws encrypt w ws = (None, w', out)" by blast
  from objects_writeBody [OF wb] wb assms(3,4) show ?thesis
    by (simp add: Write_def attachOutlinesAndForms_def)
qed

section \<open>Write: offsets, cross-reference table and trailer\<close>

lemma Write_offsets_and_size_aux:
  assumes "crypter w = None \<or>
         (\<forall>c h obj num gen c' h'. encrypt c h obj num gen = Inr (c', h') \<longrightarrow> keepsNumbers h h')"
    and "allNumbered (heap w) (objects w)"
    and "\<forall>f h. outlineTree w = Some f \<or> acroForm w = Some f \<longrightarrow> keepsNumbers h (snd (f h))"
    and "Write dws encrypt fuel w ws = Some (None, w', out)"
  shows "\<exists>body offsets trailer size.
      out = ws @ body @ xrefTable (length (objects w')) offsets
               @ ''trailer'' @ LF @ dws (heap w') (Ptr trailer) @ LF
               @ ''startxref'' @ LF @ showInt (int (length (ws @ body))) @ LF @ ''%%EOF'' @ LF
    \<and> length offsets = length (objects w')
    \<and> dictLookup (heap w') trailer ''Size'' = Some (Ptr size)
    \<and> heapGet (heap w') size = Some (PdfObjectInteger (int (length (objects w')) + 1))
    \<and> (\<forall>i < length (objects w'). 0 \<le> offsets ! i \<and> nat (offsets ! i) \<le> length (ws @ body)
           \<and> prefix (marker i) (drop (nat (offsets ! i)) out))"
proof -
  from Write_attached [OF assms(4)] obtain wB where
    B: "attachOutlinesAndForms fuel w = Some (None, wB)" and
    W: "writeBody dws encrypt wB ws = (None, w', out)"
    by (auto split: option.splits)
  from attachOutlinesAndForms_keeps [OF B assms(2,3)] have aB: "allNumbered (heap wB) (objects wB)" .
  from attachOutlinesAndForms_fields [OF B] assms(1) have eB: "crypter wB = None \<or>
         (\<forall>c h obj num gen c' h'. encrypt c h obj num gen = Inr (c', h') \<longrightarrow> keepsNumbers h h')"
    by auto
  from writeBody_returns [OF W aB eB]
  obtain body offsets trailer size where
    out: "out = ws @ body @ xrefTable (length (objects wB)) offsets
               @ ''trailer'' @ LF @ dws (heap w') (Ptr trailer) @ LF
               @ ''startxref'' @ LF @ showInt (int (length (ws @ body))) @ LF @ ''%%EOF'' @ LF" and
    o: "objects w' = objects wB" and l: "length offsets = length (objects wB)" and
    sz: "dictLookup (heap w') trailer ''Size'' = Some (Ptr size)"
        "heapGet (heap w') size = Some (PdfObjectInteger (int (length (objects wB)) + 1))" and
    m: "\<forall>i < length (objects wB). 0 \<le> offsets ! i \<and> nat (offsets ! i) \<le> length (ws @ body)
           \<and> prefix (marker i) (drop (nat (offsets ! i)) (ws @ body))"
    by blast
  define rest where "rest = xrefTable (length (objects wB)) offsets
               @ ''trailer'' @ LF @ dws (heap w') (Ptr trailer) @ LF
               @ ''startxref'' @ LF @ showInt (int (length (ws @ body))) @ LF @ ''%%EOF'' @ LF"
  have out': "out = (ws @ body) @ rest" unfolding out rest_def by simp
  have mark: "prefix (marker i) (drop (nat (offsets ! i)) out)" if "i < length (objects wB)" for i
  proof -
    from m that have "nat (offsets ! i) \<le> length (ws @ body)"
      and "prefix (marker i) (drop (nat (offsets ! i)) (ws @ body))" by simp_all
    from prefix_drop_append [OF this, of rest] show ?thesis unfolding out' .
  qed
  have 1: "out = ws @ body @ xrefTable (length (objects w')) offsets
               @ ''trailer'' @ LF @ dws (heap w') (Ptr trailer) @ LF
               @ ''startxref'' @ LF @ showInt (int (length (ws @ body))) @ LF @ ''%%EOF'' @ LF"
    using out unfolding o .
  have 2: "length offsets = length (objects w')" using l unfolding o .
  have 3: "heapGet (heap w') size = Some (PdfObjectInteger (int (length (objects w')) + 1))"
    using sz(2) unfolding o .
  have 4: "\<forall>i < length (objects w'). 0 \<le> offsets ! i \<and> nat (offsets ! i) \<le> length (ws @ body)
           \<and> prefix (marker i) (drop (nat (offsets ! i)) out)"
    unfolding o using m mark by blast
  from 1 2 sz(1) 3 4 show ?thesis by blast
qed

lemma replicate_small:
  "replicate 9 c = [c, c, c, c, c, c, c, c, c]" "replicate 4 c = [c, c, c, c]"
  by (simp_all add: eval_nat_numeral)

lemma showInt_consts:
  "showInt 0 = ''0''" "showIntPrec 10 0 = ''0000000000''" "showIntPrec 5 65535 = ''65535''"
  "showIntPrec 5 0 = ''00000''"
  by (simp_all add: showInt_def showIntPrec_def showNat.simps digitChar_def Let_def replicate_small)

lemma xrefTable_text:
  "xrefTable n offsets =
     ''xref'' @ CRLF @ ''0 '' @ showInt (int n + 1) @ CRLF @ ''0000000000 65535 f'' @ CRLF
     @ concat (map (\<lambda>offset. showIntPrec 10 offset @ '' 00000 n'' @ CRLF) offsets)"
  by (simp add: xrefTable_def showInt_consts)

text \<open>
  Claim C1. Let the writer have no security handler, let every object it has
  registered be an indirect object or a stream, and let the outline tree and
  the AcroForm, if set, leave the objects of the store their kind. If \<open>Write\<close>
  returns without error, having registered \<open>N\<close> objects, then the sink holds,
  after what it held before and the header and objects written (\<open>body\<close>): the
  cross-reference table with the line \<open>0 N+1\<close>, the free entry and one \<open>n\<close>
  entry for each of \<open>N\<close> offsets; the trailer, serialised from a dictionary
  whose \<open>Size\<close> is the integer \<open>N + 1\<close>; and \<open>startxref\<close> with the position of
  the table. At the position the \<open>i\<close>-th offset gives, the sink holds the text
  \<open>i+1 0 obj\<close> with its line feed.
\<close>

theorem Write_offsets_and_size:
  assumes "crypter w = None" and "allNumbered (heap w) (objects w)"
    and "\<forall>f h. outlineTree w = Some f \<or> acroForm w = Some f \<longrightarrow> keepsNumbers h (snd (f h))"
    and "Write dws encrypt fuel w ws = Some (None, w', out)"
  shows "\<exists>body offsets trailer size.
      out = ws @ body
               @ ''xref'' @ CRLF @ ''0 '' @ showInt (int (length (objects w')) + 1) @ CRLF
               @ ''0000000000 65535 f'' @ CRLF
               @ concat (map (\<lambda>offset. showIntPrec 10 offset @ '' 00000 n'' @ CRLF) offsets)
               @ ''trailer'' @ LF @ dws (heap w') (Ptr trailer) @ LF
               @ ''startxref'' @ LF @ showInt (int (length (ws @ body))) @ LF @ ''%%EOF'' @ LF
    \<and> length offsets = length (objects w')
    \<and> dictLookup (heap w') trailer ''Size'' = Some (Ptr size)
    \<and> heapGet (heap w') size = Some (PdfObjectInteger (int (length (objects w')) + 1))
    \<and> (\<forall>i < length (objects w'). 0 \<le> offsets ! i \<and> nat (offsets ! i) \<le> length (ws @ body)
           \<and> prefix (marker i) (drop (nat (offsets ! i)) out))"
  using Write_offsets_and_size_aux [OF disjI1 [OF assms(1)] assms(2,3,4)] unfolding xrefTable_text by simp

theorem Write_offsets_and_size_witness:
  "\<exists>w' out body offsets trailer size.
      Write (\<lambda>h obj. []) encryptLogging 0 exampleOneObject [] = Some (None, w', out)
    \<and> out = body
               @ ''xref'' @ CRLF @ ''0 2'' @ CRLF @ ''0000000000 65535 f'' @ CRLF
               @ showIntPrec 10 (offsets ! 0) @ '' 00000 n'' @ CRLF
               @ ''trailer'' @ LF @ LF
               @ ''startxref'' @ LF @ showInt (int (length body)) @ LF @ ''%%EOF'' @ LF
    \<and> length offsets = 1
    \<and> dictLookup (heap w') trailer ''Size'' = Some (Ptr size)
    \<and> heapGet (heap w') size = Some (PdfObjectInteger 2)
    \<and> prefix (marker 0) (drop (nat (offsets ! 0)) out)"
proof -
  have c: "crypter exampleOneObject = None" by (simp add: exampleOneObject_def)
  have a: "allNumbered (heap exampleOneObject) (objects exampleOneObject)"
    by (simp add: exampleOneObject_def allNumbered_def objectNumber_def cellNumber_def eval_defs)
  have b: "\<forall>obj \<in> set (objects exampleOneObject). writable (heap exampleOneObject) obj"
    by (simp add: exampleOneObject_def writable_def eval_defs)
  have n: "outlineTree exampleOneObject = None" "acroForm exampleOneObject = None"
    by (simp_all add: exampleOneObject_def)
  from Write_unencrypted_returns [OF c b n, of "\<lambda>h obj. []" encryptLogging 0 "[]"]
  obtain w' out where
    w: "Write (\<lambda>h obj. []) encryptLogging 0 exampleOneObject [] = Some (None, w', out)" and
    o: "objects w' = [Ptr 1]"
    by (auto simp: exampleOneObject_def)
  have col: "\<forall>f h. outlineTree exampleOneObject = Some f \<or> acroForm exampleOneObject = Some f
              \<longrightarrow> keepsNumbers h (snd (f h))"
    using n by simp
  from Write_offsets_and_size [OF c a col w]
  obtain body offsets trailer size where
    f1: "out = [] @ body
               @ ''xref'' @ CRLF @ ''0 '' @ showInt (int (length (objects w')) + 1) @ CRLF
               @ ''0000000000 65535 f'' @ CRLF
               @ concat (map (\<lambda>offset. showIntPrec 10 offset @ '' 00000 n'' @ CRLF) offsets)
               @ ''trailer'' @ LF @ [] @ LF
               @ ''startxref'' @ LF @ showInt (int (length ([] @ body))) @ LF @ ''%%EOF'' @ LF" and
    f2: "length offsets = length (objects w')" and
    f3: "dictLookup (heap w') trailer ''Size'' = Some (Ptr size)" and
    f4: "heapGet (heap w') size = Some (PdfObjectInteger (int (length (objects w')) + 1))" and
    f5: "\<forall>i < length (objects w'). 0 \<le> offsets ! i \<and> nat (offsets ! i) \<le> length ([] @ body)
           \<and> prefix (marker i) (drop (nat (offsets ! i)) out)"
    by blast
  have g2: "length offsets = 1" using f2 by (simp add: o)
  then obtain x where x: "offsets = [x]" by (cases offsets) auto
  have two: "showInt 2 = ''2''"
    by (simp add: showInt_def showIntPrec_def showNat.simps digitChar_def Let_def)
  have g1: "out = body
               @ ''xref'' @ CRLF @ ''0 2'' @ CRLF @ ''0000000000 65535 f'' @ CRLF
               @ showIntPrec 10 (offsets ! 0) @ '' 00000 n'' @ CRLF
               @ ''trailer'' @ LF @ LF
               @ ''startxref'' @ LF @ showInt (int (length body)) @ LF @ ''%%EOF'' @ LF"
    using f1 by (simp add: o x two)
  have g4: "heapGet (heap w') size = Some (PdfObjectInteger 2)" using f4 by (simp add: o)
  have g5: "prefix (marker 0) (drop (nat (offsets ! 0)) out)" using f5 by (simp add: o)
  from w g1 g2 f3 g4 g5 show ?thesis by blast
qed

section \<open>Write: object numbers\<close>

lemma Write_numbers:
  assumes "distinct (objects w)" and "allNumbered (heap w) (objects w)"
    and "\<forall>f h. outlineTree w = Some f \<or> acroForm w = Some f \<longrightarrow> keepsNumbers h (snd (f h))"
    and "crypter w = None \<or>
         (\<forall>c h obj num gen c' h'. encrypt c h obj num gen = Inr (c', h') \<longrightarrow> keepsNumbers h h')"
    and "Write dws encrypt fuel w ws = Some (None, w', out)"
    and "i < length (objects w')"
  shows "objectNumber (heap w') (objects w' ! i) = Some (int i + 1, 0)"
proof -
  from Write_attached [OF assms(5)] obtain wB where
    B: "attachOutlinesAndForms fuel w = Some (None, wB)" and
    W: "writeBody dws encrypt wB ws = (None, w', out)"
    by (auto split: option.splits)
  from attachOutlinesAndForms_keeps [OF B assms(2,3)] have aB: "allNumbered (heap wB) (objects wB)" .
  from attachOutlinesAndForms_fields [OF B] assms(1,4) have eB: "crypter wB = None \<or>
         (\<forall>c h obj num gen c' h'. encrypt c h obj num gen = Inr (c', h') \<longrightarrow> keepsNumbers h h')"
    and dB: "distinct (objects wB)"
    by (auto simp: grows_def)
  from objects_writeBody [OF W] have o: "objects w' = objects wB" .
  from writeBody_numbers [OF W aB eB dB, of i] assms(6) show ?thesis by (simp add: o)
qed

text \<open>
  Claim C7. Object numbers are assigned when \<open>Write\<close> runs, and only then.
  Let the writer hold no object twice, let every object it has registered be
  an indirect object or a stream, and let the outline tree, the AcroForm and
  the encryption step leave the objects of the store their kind. If \<open>Write\<close>
  returns without error, then the object at index \<open>i\<close> of the list has the
  number \<open>i + 1\<close> and the generation 0 in the store, the sink holds the text
  \<open>i+1 0 obj\<close> at the offset gathered for it, and its entry of the
  cross-reference table has the generation \<open>00000\<close>. The other methods assign
  no number: the traversal leaves the store as it is, and \<open>SetOCProperties\<close>,
  \<open>AddPage\<close>, \<open>AddForms\<close> and \<open>Encrypt\<close> leave every cell its object number and
  generation.
\<close>

theorem object_numbers_assigned_at_write:
  assumes "distinct (objects w)" and "allNumbered (heap w) (objects w)"
    and "\<forall>f h. outlineTree w = Some f \<or> acroForm w = Some f \<longrightarrow> keepsNumbers h (snd (f h))"
    and "crypter w = None \<or>
         (\<forall>c h obj num gen c' h'. encrypt c h obj num gen = Inr (c', h') \<longrightarrow> keepsNumbers h h')"
    and "Write dws encrypt fuel w ws = Some (None, w', out)"
  shows "(\<forall>i < length (objects w'). objectNumber (heap w') (objects w' ! i) = Some (int i + 1, 0))
    \<and> (\<exists>body offsets rest.
          out = ws @ body
                  @ ''xref'' @ CRLF @ ''0 '' @ showInt (int (length (objects w')) + 1) @ CRLF
                  @ ''0000000000 65535 f'' @ CRLF
                  @ concat (map (\<lambda>offset. showIntPrec 10 offset @ '' 00000 n'' @ CRLF) offsets)
                  @ rest
        \<and> length offsets = length (objects w')
        \<and> (\<forall>i < length (objects w'). 0 \<le> offsets ! i \<and> nat (offsets ! i) \<le> length (ws @ body)
               \<and> prefix (marker i) (drop (nat (offsets ! i)) out)))
    \<and> (\<forall>fuel obj r w1. addObjects fuel w obj = Some (r, w1) \<longrightarrow> heap w1 = heap w)
    \<and> (\<forall>fuel obj r w1. SetOCProperties fuel w obj = Some (r, w1) \<longrightarrow> keepsNumbers (heap w) (heap w1))
    \<and> (\<forall>fuel obj r w1. AddPage fuel w obj = Some (r, w1) \<longrightarrow> keepsNumbers (heap w) (heap w1))
    \<and> (\<forall>fuel forms r w1. AddForms fuel w forms = Some (r, w1) \<longrightarrow> keepsNumbers (heap w) (heap w1))
    \<and> (\<forall>alg3 alg5 hash0 hash1 userPass ownerPass options r w1.
          Encrypt alg3 alg5 hash0 hash1 w userPass ownerPass options = (r, w1)
            \<longrightarrow> keepsNumbers (heap w) (heap w1))"
proof -
  have 1: "\<forall>i < length (objects w'). objectNumber (heap w') (objects w' ! i) = Some (int i + 1, 0)"
    using Write_numbers [OF assms] by blast
  from Write_offsets_and_size_aux [OF assms(4,2,3,5)] obtain body offsets trailer where
    out: "out = ws @ body @ xrefTable (length (objects w')) offsets
               @ ''trailer'' @ LF @ dws (heap w') (Ptr trailer) @ LF
               @ ''startxref'' @ LF @ showInt (int (length (ws @ body))) @ LF @ ''%%EOF'' @ LF" and
    l: "length offsets = length (objects w')" and
    m: "\<forall>i < length (objects w'). 0 \<le> offsets ! i \<and> nat (offsets ! i) \<le> length (ws @ body)
           \<and> prefix (marker i) (drop (nat (offsets ! i)) out)"
    by blast
  define rest where "rest = ''trailer'' @ LF @ dws (heap w') (Ptr trailer) @ LF
               @ ''startxref'' @ LF @ showInt (int (length (ws @ body))) @ LF @ ''%%EOF'' @ LF"
  have o2: "out = ws @ body
                  @ ''xref'' @ CRLF @ ''0 '' @ showInt (int (length (objects w')) + 1) @ CRLF
                  @ ''0000000000 65535 f'' @ CRLF
                  @ concat (map (\<lambda>offset. showIntPrec 10 offset @ '' 00000 n'' @ CRLF) offsets)
                  @ rest"
    unfolding out xrefTable_text rest_def by simp
  from o2 l m have 2: "\<exists>body offsets rest.
          out = ws @ body
                  @ ''xref'' @ CRLF @ ''0 '' @ showInt (int (length (objects w')) + 1) @ CRLF
                  @ ''0000000000 65535 f'' @ CRLF
                  @ concat (map (\<lambda>offset. showIntPrec 10 offset @ '' 00000 n'' @ CRLF) offsets)
                  @ rest
        \<and> length offsets = length (objects w')
        \<and> (\<forall>i < length (objects w'). 0 \<le> offsets ! i \<and> nat (offsets ! i) \<le> length (ws @ body)
               \<and> prefix (marker i) (drop (nat (offsets ! i)) out))"
    by blast
  have 3: "\<forall>fuel obj r w1. addObjects fuel w obj = Some (r, w1) \<longrightarrow> heap w1 = heap w"
    by (auto dest: addObjects_grows)
  have 4: "\<forall>fuel obj r w1. SetOCProperties fuel w obj = Some (r, w1) \<longrightarrow> keepsNumbers (heap w) (heap w1)"
    by (auto dest: keepsNumbers_SetOCProperties)
  have 5: "\<forall>fuel obj r w1. AddPage fuel w obj = Some (r, w1) \<longrightarrow> keepsNumbers (heap w) (heap w1)"
    by (auto dest: keepsNumbers_AddPage)
  have 6: "\<forall>fuel forms r w1. AddForms fuel w forms = Some (r, w1) \<longrightarrow> keepsNumbers (heap w) (heap w1)"
    by (auto dest: keepsNumbers_AddForms)
  have 7: "\<forall>alg3 alg5 hash0 hash1 userPass ownerPass options r w1.
          Encrypt alg3 alg5 hash0 hash1 w userPass ownerPass options = (r, w1)
            \<longrightarrow> keepsNumbers (heap w) (heap w1)"
    by (auto dest: keepsNumbers_Encrypt)
  from 1 2 3 4 5 6 7 show ?thesis by blast
qed

theorem object_numbers_assigned_at_write_witness:
  "\<exists>w' out. Write (\<lambda>h obj. []) encryptLogging 0 exampleTwoObjects [] = Some (None, w', out)
     \<and> objectNumber (heap exampleTwoObjects) (Ptr 2) = Some (5, 1)
     \<and> objectNumber (heap w') (Ptr 1) = Some (1, 0)
     \<and> objectNumber (heap w') (Ptr 2) = Some (2, 0)"
proof -
  have c: "crypter exampleTwoObjects = None" by (simp add: exampleTwoObjects_def)
  have d: "distinct (objects exampleTwoObjects)" by (simp add: exampleTwoObjects_def)
  have a: "allNumbered (heap exampleTwoObjects) (objects exampleTwoObjects)"
    by (simp add: exampleTwoObjects_def allNumbered_def objectNumber_def cellNumber_def eval_defs)
  have b: "\<forall>obj \<in> set (objects exampleTwoObjects). writable (heap exampleTwoObjects) obj"
    by (simp add: exampleTwoObjects_def writable_def eval_defs)
  have n: "outlineTree exampleTwoObjects = None" "acroForm exampleTwoObjects = None"
    by (simp_all add: exampleTwoObjects_def)
  from Write_unencrypted_returns [OF c b n, of "\<lambda>h obj. []" encryptLogging 0 "[]"]
  obtain w' out where
    w: "Write (\<lambda>h obj. []) encryptLogging 0 exampleTwoObjects [] = Some (None, w', out)" and
    o: "objects w' = [Ptr 1, Ptr 2]"
    by (auto simp: exampleTwoObjects_def)
  have col: "\<forall>f h. outlineTree exampleTwoObjects = Some f \<or> acroForm exampleTwoObjects = Some f
              \<longrightarrow> keepsNumbers h (snd (f h))"
    using n by simp
  have all: "\<forall>i < length (objects w'). objectNumber (heap w') (objects w' ! i) = Some (int i + 1, 0)"
    by (rule conjunct1 [OF object_numbers_assigned_at_write [OF d a col disjI1 [OF c] w]])
  from all [rule_format, of 0] all [rule_format, of 1]
  have g: "objectNumber (heap w') (Ptr 1) = Some (1, 0)" "objectNumber (heap w') (Ptr 2) = Some (2, 0)"
    by (simp_all add: o)
  have s: "objectNumber (heap exampleTwoObjects) (Ptr 2) = Some (5, 1)"
    by (simp add: exampleTwoObjects_def objectNumber_def cellNumber_def eval_defs)
  from w g s show ?thesis by blast
qed

section \<open>Write: encryption\<close>

lemma toEncrypt_update [simp]:
  "toEncrypt (this\<lparr>crypter := c, heap := h\<rparr>) idx objs = toEncrypt this idx objs"
  by (simp add: toEncrypt_def)



lemma length_numbered [simp]: "length (numbered idx objs) = length objs"
  by (induction objs arbitrary: idx) auto

lemma fst_numbered [simp]: "map fst (numbered idx objs) = objs"
  by (induction objs arbitrary: idx) auto









section \<open>Write: pending Parent entries\<close>

lemma AddPage_exampleSharedParent:
  "\<exists>w1. AddPage 4 (writerWith 15 3 14 17 [Ptr 17, Ptr 15, Ptr 3] exampleSharedParent) (Ptr 13)
          = Some (None, w1)
     \<and> pendingObjects w1 = [(Ptr 6, 9)]
     \<and> objects w1 = [Ptr 17, Ptr 15, Ptr 3, Ptr 13, Ptr 8, Ptr 10]
     \<and> crypter w1 = None \<and> outlineTree w1 = None \<and> acroForm w1 = None
     \<and> catalog w1 = 14 \<and> infoObj w1 = 17 \<and> root w1 = 15
     \<and> majorVersion w1 = 1 \<and> minorVersion w1 = 3
     \<and> heap w1 = exampleSharedParent
          [0 := PdfObjectArray [Ptr 13], 1 := PdfObjectInteger 1,
           12 := PdfObjectDictionary [(''Type'', Ptr 4), (''Annots'', Ptr 11), (''Parent'', Ptr 3)]]"
  by (simp add: AddPage_def addPageToPages_def exampleSharedParent_def eval_defs eval_nat_numeral
        int64_def writerWith_def)

text \<open>
  \<open>addObjects\<close> fails on a \<open>Parent\<close> that is a reference, after it has noted the
  entry as pending; \<open>SetOCProperties\<close> drops that error and returns nil.
\<close>

lemma addObjects_reference_Parent:
  "\<exists>w'. addObjects 3 (writerWith 0 0 0 0 [] exampleReferenceParent) (Ptr 3)
           = Some (Some ParentIsReference, w')
       \<and> pendingObjects w' = [(Ptr 1, 2)]"
  by (simp add: exampleReferenceParent_def eval_defs eval_nat_numeral writerWith_def)

lemma SetOCProperties_drops_reference_Parent:
  "\<exists>w'. SetOCProperties 3 (writerWith 0 0 0 0 [] exampleReferenceParent) (Ptr 3) = Some (None, w')
       \<and> pendingObjects w' = [(Ptr 1, 2)]"
  by (simp add: SetOCProperties_def exampleReferenceParent_def eval_defs eval_nat_numeral
        writerWith_def)

text \<open>
  Claim C4 says that a \<open>Parent\<close> entry whose referent is absent from the
  registered objects when \<open>Write\<close> runs is replaced by a null. \<open>pendingObjects\<close>
  is a map from the referent to one dictionary, so of two dictionaries with
  the same absent \<open>Parent\<close> it keeps the second only. In the example,
  \<open>AddPage\<close> registers the page and its two annotations and returns without
  error, and so does \<open>Write\<close>; afterwards the second annotation's \<open>Parent\<close> is a
  null, and the first annotation's \<open>Parent\<close> is still the object 6, which is
  not among the objects written.
\<close>

theorem Write_leaves_shared_absent_Parent:
  "\<exists>w1 w2 out null.
      AddPage 4 (writerWith 15 3 14 17 [Ptr 17, Ptr 15, Ptr 3] exampleSharedParent) (Ptr 13)
        = Some (None, w1)
    \<and> Write dws encrypt 0 w1 [] = Some (None, w2, out)
    \<and> \<not> hasObject w2 (Ptr 6)
    \<and> dictLookup (heap w2) 7 ''Parent'' = Some (Ptr 6)
    \<and> dictLookup (heap w2) 9 ''Parent'' = Some (Ptr null)
    \<and> heapGet (heap w2) null = Some PdfObjectNull"
proof -
  from AddPage_exampleSharedParent obtain w1 where
    a: "AddPage 4 (writerWith 15 3 14 17 [Ptr 17, Ptr 15, Ptr 3] exampleSharedParent) (Ptr 13)
          = Some (None, w1)" and
    p: "pendingObjects w1 = [(Ptr 6, 9)]" and
    o: "objects w1 = [Ptr 17, Ptr 15, Ptr 3, Ptr 13, Ptr 8, Ptr 10]" and
    c: "crypter w1 = None" and t: "outlineTree w1 = None" "acroForm w1 = None" and
    f: "catalog w1 = 14" "infoObj w1 = 17" "root w1 = 15" "majorVersion w1 = 1"
       "minorVersion w1 = 3" and
    h: "heap w1 = exampleSharedParent
          [0 := PdfObjectArray [Ptr 13], 1 := PdfObjectInteger 1,
           12 := PdfObjectDictionary [(''Type'', Ptr 4), (''Annots'', Ptr 11), (''Parent'', Ptr 3)]]"
    by blast
  have b: "\<forall>obj \<in> set (objects w1). writable (heap w1) obj"
    by (simp add: writable_def o h exampleSharedParent_def eval_defs)
  from writeBody_unencrypted [OF c b, of dws encrypt "[]"] obtain w2 out where
    wb: "writeBody dws encrypt w1 [] = (None, w2, out)" by blast
  from objects_writeBody [OF wb] have o2: "objects w2 = objects w1" .
  have w: "Write dws encrypt 0 w1 [] = Some (None, w2, out)"
    by (simp add: Write_def attachOutlinesAndForms_def t wb)
  have cp: "heap (checkPending w1 (pendingObjects w1)) =
      (heap w1 @ [PdfObjectNull])[9 := PdfObjectDictionary [(''Parent'', Ptr 18)]]"
    by (simp add: p o h exampleSharedParent_def eval_defs MakeNull_def)
  have h2: "heap w2 = snd (makeTrailer (updateObjectNumbers
                (stampVersion (checkPending w1 (pendingObjects w1)))))"
    by (rule writeBody_heap [OF c wb])
  have g7: "heapGet (heap w2) 7 = Some (PdfObjectDictionary [(''Parent'', Ptr 6)])"
    and g9: "heapGet (heap w2) 9 = Some (PdfObjectDictionary [(''Parent'', Ptr 18)])"
    and g18: "heapGet (heap w2) 18 = Some PdfObjectNull"
    unfolding h2
    by (simp_all add: makeTrailer_def updateObjectNumbers_def stampVersion_def cp h o f c
          exampleSharedParent_def eval_defs MakeName_def MakeInteger_def setObjectNumber_def
          Let_def)
  have "\<not> hasObject w2 (Ptr 6)" by (simp add: hasObject_def o2 o)
  moreover have "dictLookup (heap w2) 7 ''Parent'' = Some (Ptr 6)"
    using g7 by (simp add: dictLookup_def dictOf_def)
  moreover have "dictLookup (heap w2) 9 ''Parent'' = Some (Ptr 18)"
    using g9 by (simp add: dictLookup_def dictOf_def)
  ultimately show ?thesis using a w g18 by blast
qed

section \<open>Encrypt\<close>

text \<open>
  Claim C10. Whatever the passwords, the options and the outcome of the two
  key algorithms, \<open>Encrypt\<close> leaves the writer a security handler with V = 2,
  R = 3, a key length of 128 bits and the one crypt filter \<open>Default\<close> with
  method \<open>V2\<close> and length 128 (so no filter with \<open>AESV2\<close>); its P is -1 for nil
  options and what \<open>GetP\<close> returns otherwise.
\<close>

theorem Encrypt_fixed_parameters:
  "\<exists>c. crypter (snd (Encrypt alg3 alg5 hash0 hash1 this userPass ownerPass options)) = Some c
     \<and> cryptV c = 2 \<and> cryptR c = 3 \<and> cryptLength c = 128
     \<and> CryptFilters c = [(''Default'', \<lparr>Cfm = ''V2'', FilterLength = 128\<rparr>)]
     \<and> cryptP c = (case options of None \<Rightarrow> - 1 | Some opts \<Rightarrow> GetP (Permissions opts))"
  by (simp add: Encrypt_def Let_def addObject_def alloc_def MakeName_def MakeInteger_def
        split: prod.splits sum.splits option.splits)

section \<open>Text extraction\<close>

text \<open>
  Claim C9. \<open>Parse\<close> is a parameter; the hypotheses say what it returns for
  the three content streams: each operator with the operands before it, the
  strings, the array and the number \<open>-20\<close> being objects of the store it
  returns. Then \<open>ExtractText\<close> returns \<open>Hello\<close> for \<open>BT (Hello) Tj ET\<close>,
  \<open>Hello\<close> for \<open>BT [(Hel)-20(lo)] TJ ET\<close>, and \<open>A\<close>, a line feed, \<open>B\<close> for
  \<open>BT (A) Tj T* (B) Tj ET\<close>.
\<close>

theorem ExtractText_examples:
  assumes "parse ''BT (Hello) Tj ET'' =
             Inr ([\<lparr>Params = [], Operand = ''BT''\<rparr>, \<lparr>Params = [hello], Operand = ''Tj''\<rparr>,
                   \<lparr>Params = [], Operand = ''ET''\<rparr>], h1)"
    and "deref h1 hello = Some (PdfObjectString ''Hello'')"
    and "parse ''BT [(Hel)-20(lo)] TJ ET'' =
             Inr ([\<lparr>Params = [], Operand = ''BT''\<rparr>, \<lparr>Params = [Ptr arr], Operand = ''TJ''\<rparr>,
                   \<lparr>Params = [], Operand = ''ET''\<rparr>], h2)"
    and "heapGet h2 arr = Some (PdfObjectArray [hel, kern, lo])"
    and "deref h2 hel = Some (PdfObjectString ''Hel'')"
    and "deref h2 kern = Some (PdfObjectInteger (- 20))"
    and "deref h2 lo = Some (PdfObjectString ''lo'')"
    and "parse ''BT (A) Tj T* (B) Tj ET'' =
             Inr ([\<lparr>Params = [], Operand = ''BT''\<rparr>, \<lparr>Params = [a], Operand = ''Tj''\<rparr>,
                   \<lparr>Params = [], Operand = ''T*''\<rparr>, \<lparr>Params = [b], Operand = ''Tj''\<rparr>,
                   \<lparr>Params = [], Operand = ''ET''\<rparr>], h3)"
    and "deref h3 a = Some (PdfObjectString ''A'')"
    and "deref h3 b = Some (PdfObjectString ''B'')"
  shows "ExtractText parse ''BT (Hello) Tj ET'' = Inr ''Hello''
    \<and> ExtractText parse ''BT [(Hel)-20(lo)] TJ ET'' = Inr ''Hello''
    \<and> ExtractText parse ''BT (A) Tj T* (B) Tj ET'' = Inr (''A'' @ LF @ ''B'')"
  using assms by (simp add: ExtractText_def asString_def asArray_def arrayOf_def)

theorem ExtractText_examples_witness:
  "ExtractText parseExamples ''BT (Hello) Tj ET'' = Inr ''Hello''
    \<and> ExtractText parseExamples ''BT [(Hel)-20(lo)] TJ ET'' = Inr ''Hello''
    \<and> ExtractText parseExamples ''BT (A) Tj T* (B) Tj ET'' = Inr (''A'' @ LF @ ''B'')"
  by (rule ExtractText_examples [where hello = "Ptr 0" and arr = 3 and hel = "Ptr 0"
        and kern = "Ptr 1" and lo = "Ptr 2" and a = "Ptr 0" and b = "Ptr 1"
        and ?h1.0 = "[PdfObjectString ''Hello'']"
        and ?h2.0 = "[PdfObjectString ''Hel'', PdfObjectInteger (- 20), PdfObjectString ''lo'',
                      PdfObjectArray [Ptr 0, Ptr 1, Ptr 2]]"
        and ?h3.0 = "[PdfObjectString ''A'', PdfObjectString ''B'']"])
     (simp_all add: parseExamples_def deref_def heapGet_def)

end
